theory Spec2Isabelle
  imports Main "HOL-Library.Word"
begin

unbundle bit_operations_syntax

section \<open>Statuses and results\<close>

text \<open>
  A shallow embedding of \<^verbatim>\<open>src/core/lib/event_engine/ares_driver.cc\<close>: the request
  objects that drive a c-ares channel from an event engine.

  \<^verbatim>\<open>absl::Status\<close> is a status code with a message; gRPC's error helpers attach string
  properties and child errors to it.
\<close>

datatype StatusCode =
  kOk | kCancelled | kUnknown | kInvalidArgument | kDeadlineExceeded | kNotFound

datatype Status =
  MkStatus (code: StatusCode) (message: string) (target_address: "string option")
    (children: "Status list")

definition ok :: "Status \<Rightarrow> bool" where
  "ok st = (code st = kOk)"

definition OkStatus :: Status where
  "OkStatus = MkStatus kOk [] None []"

definition StatusCreate :: "StatusCode \<Rightarrow> string \<Rightarrow> Status" where
  "StatusCreate c msg = MkStatus c msg None []"

text \<open>
  Modelled from the spec: \<^verbatim>\<open>grpc_error_set_str\<close> is declared in
  \<^verbatim>\<open>src/core/lib/iomgr/error.h\<close>, which is missing. It annotates an error with the
  target address and leaves the rest of the status as it is.
\<close>

definition grpc_error_set_str :: "Status \<Rightarrow> string \<Rightarrow> Status" where
  "grpc_error_set_str st v = MkStatus (code st) (message st) (Some v) (children st)"

text \<open>
  Modelled from the spec: \<^verbatim>\<open>grpc_error_add_child\<close> (same missing header) folds a
  sub-query error into the accumulated error: the first error becomes the
  accumulated one, later ones are kept as its children.
\<close>

definition grpc_error_add_child :: "Status \<Rightarrow> Status \<Rightarrow> Status" where
  "grpc_error_add_child src child =
     (if ok src then child
      else if ok child then src
      else MkStatus (code src) (message src) (target_address src) (children src @ [child]))"

text \<open>\<^verbatim>\<open>absl::StatusOr<T>\<close>: an error status or a value.\<close>

datatype 'a StatusOr = Error Status | Value 'a

text \<open>
  A call either returns or stops the process: at a \<^verbatim>\<open>GPR_ASSERT\<close> whose condition
  is false, or at a read past the end of a buffer.
\<close>

datatype fault = AssertFailed string | OutOfBounds

datatype 'a outcome = is_Aborted: Aborted fault | is_Returns: Returns (returned: 'a)

definition ARES_SUCCESS :: int where
  "ARES_SUCCESS = 0"

section \<open>The TXT reply\<close>

text \<open>
  \<^verbatim>\<open>struct ares_txt_ext\<close> of c-ares: \<^verbatim>\<open>txt\<close> points to a buffer, \<^verbatim>\<open>length\<close> is the
  number of text bytes, \<^verbatim>\<open>record_start\<close> is non-zero on the first chunk of a record.
  The \<^verbatim>\<open>next\<close> pointers chain the records; the chain is a list here. The field
  \<open>txt_ptr\<close> (the field \<^verbatim>\<open>txt\<close>) holds the bytes that can be read from the pointer.
\<close>

record ares_txt_ext =
  txt_ptr :: string
  txt_length :: "64 word"
  record_start :: "8 word"

text \<open>
  The stub's layout of a chunk: \<^verbatim>\<open>length\<close> bytes of text and a terminating NUL.
\<close>

definition NUL :: char where
  "NUL = CHR 0x00"

definition text_of :: "ares_txt_ext \<Rightarrow> string" where
  "text_of r = take (unat (txt_length r)) (txt_ptr r)"

definition nul_terminated :: "ares_txt_ext \<Rightarrow> bool" where
  "nul_terminated r =
     (length (txt_ptr r) = unat (txt_length r) + 1 \<and> txt_ptr r ! unat (txt_length r) = NUL)"

definition g_service_config_attribute_prefix :: string where
  "g_service_config_attribute_prefix = ''grpc_config='' @ [NUL]"

definition g_prefix_len :: "64 word" where
  "g_prefix_len = word_of_nat (length g_service_config_attribute_prefix) - 1"

text \<open>
  \<^verbatim>\<open>memcmp(a, b, n)\<close>: compares bytes until the first difference; \<open>None\<close> when a
  buffer ends before a difference is found or \<open>n\<close> bytes are compared.
\<close>

fun memcmp :: "string \<Rightarrow> string \<Rightarrow> nat \<Rightarrow> int option" where
  "memcmp a b 0 = Some 0"
| "memcmp (x # a) (y # b) (Suc n) =
     (if x = y then memcmp a b n
      else Some (if (of_char x :: nat) < of_char y then - 1 else 1))"
| "memcmp a b (Suc n) = None"

text \<open>\<^verbatim>\<open>std::string::append(p, n)\<close> reads \<open>n\<close> bytes from \<open>p\<close>.\<close>

definition read_bytes :: "string \<Rightarrow> nat \<Rightarrow> string option" where
  "read_bytes buf n = (if n \<le> length buf then Some (take n buf) else None)"

text \<open>
  The search loop of \<^verbatim>\<open>OnTXTDoneLocked\<close>: the chain from the first chunk that starts a
  record and compares equal to the prefix, \<open>[]\<close> for \<^verbatim>\<open>nullptr\<close>.
\<close>

fun find_service_config :: "ares_txt_ext list \<Rightarrow> ares_txt_ext list outcome" where
  "find_service_config [] = Returns []"
| "find_service_config (r # rest) =
     (if record_start r \<noteq> 0 then
        (case memcmp (txt_ptr r) g_service_config_attribute_prefix (unat g_prefix_len) of
           None \<Rightarrow> Aborted OutOfBounds
         | Some c \<Rightarrow> if c = 0 then Returns (r # rest) else find_service_config rest)
      else find_service_config rest)"

text \<open>The second loop: the chunks that follow, up to the next record start.\<close>

fun append_chunks :: "string \<Rightarrow> ares_txt_ext list \<Rightarrow> string outcome" where
  "append_chunks out [] = Returns out"
| "append_chunks out (r # rest) =
     (if record_start r \<noteq> 0 then Returns out
      else (case read_bytes (txt_ptr r) (unat (txt_length r)) of
              None \<Rightarrow> Aborted OutOfBounds
            | Some t \<Rightarrow> append_chunks (out @ t) rest))"

definition service_config_json_out :: "ares_txt_ext list \<Rightarrow> string outcome" where
  "service_config_json_out reply =
     (case find_service_config reply of
        Aborted f \<Rightarrow> Aborted f
      | Returns [] \<Rightarrow> Returns []
      | Returns (r # rest) \<Rightarrow>
          (let service_config_len = txt_length r - g_prefix_len in
           case read_bytes (drop (unat g_prefix_len) (txt_ptr r)) (unat service_config_len) of
             None \<Rightarrow> Aborted OutOfBounds
           | Some t \<Rightarrow> append_chunks t rest))"

text \<open>
  The TXT rule in the spec's words: the first chunk that starts a record and whose text
  begins with \<^verbatim>\<open>grpc_config=\<close>; its text after the prefix, then the text of the chunks
  that follow while they do not start a record.
\<close>

definition prefix_text :: string where
  "prefix_text = ''grpc_config=''"

definition is_config_start :: "ares_txt_ext \<Rightarrow> bool" where
  "is_config_start r = (record_start r \<noteq> 0 \<and> take (length prefix_text) (text_of r) = prefix_text)"

fun spec_txt_payload :: "ares_txt_ext list \<Rightarrow> string" where
  "spec_txt_payload [] = []"
| "spec_txt_payload (r # rest) =
     (if is_config_start r then
        drop (length prefix_text) (text_of r)
          @ concat (map text_of (takeWhile (\<lambda>c. record_start c = 0) rest))
      else spec_txt_payload rest)"

text \<open>
  A reply of four chunks: an unrelated record, a service config in two chunks, and a
  further record.
\<close>

definition reply_ex :: "ares_txt_ext list" where
  "reply_ex =
     [\<lparr>txt_ptr = ''v=spf1'' @ [NUL], txt_length = 6, record_start = 1\<rparr>,
      \<lparr>txt_ptr = ''grpc_config=[{'' @ [NUL], txt_length = 14, record_start = 1\<rparr>,
      \<lparr>txt_ptr = ''}]'' @ [NUL], txt_length = 2, record_start = 0\<rparr>,
      \<lparr>txt_ptr = ''other'' @ [NUL], txt_length = 5, record_start = 1\<rparr>]"

section \<open>Addresses\<close>

text \<open>
  \<^verbatim>\<open>EventEngine::ResolvedAddress\<close> holds a \<^verbatim>\<open>sockaddr_in\<close> or a \<^verbatim>\<open>sockaddr_in6\<close>. The port
  field is the 16-bit value as the host stores it; \<^verbatim>\<open>htons\<close> swaps the two bytes on a
  little-endian host and is the identity on a big-endian one.
\<close>

datatype ResolvedAddress =
  sockaddr_in (sin_family: int) (sin_port: "16 word") (sin_addr: string)
| sockaddr_in6 (sin6_family: int) (sin6_port: "16 word") (sin6_addr: string)

fun port_field :: "ResolvedAddress \<Rightarrow> 16 word" where
  "port_field (sockaddr_in f p a) = p"
| "port_field (sockaddr_in6 f p a) = p"

definition htons :: "bool \<Rightarrow> 16 word \<Rightarrow> 16 word" where
  "htons little_endian x = (if little_endian then push_bit 8 x OR drop_bit 8 x else x)"

text \<open>The address families, with their Linux values; the code only compares them.\<close>

definition AF_INET :: int where
  "AF_INET = 2"

definition AF_INET6 :: int where
  "AF_INET6 = 10"

text \<open>
  \<^verbatim>\<open>struct hostent\<close>: the address type and the addresses, each the bytes readable at its
  pointer; the list ends at the \<^verbatim>\<open>nullptr\<close> entry.
\<close>

record hostent =
  h_addrtype :: int
  h_addr_list :: "string list"

record SRVRecord =
  srv_host :: string
  srv_port :: int
  srv_priority :: int
  srv_weight :: int

section \<open>The collaborators\<close>

text \<open>
  What the driver calls and this file does not define: the host (byte order, IPv6
  loopback), the stub's \<^verbatim>\<open>ares_strerror\<close>, \<^verbatim>\<open>SplitHostPort\<close> (\<^verbatim>\<open>gprpp/host_port.h\<close>),
  \<^verbatim>\<open>absl::SimpleAtoi\<close>, which host texts are IPv4 and IPv6 address literals (with the
  address bytes of each), the status code of the errors that the macro
  \<^verbatim>\<open>GRPC_ERROR_CREATE\<close> builds, and the RFC 6724 sort. They are parameters.
  A sortable pairs a destination address with its \<^verbatim>\<open>user_data\<close>, here the index of
  the element of \<^verbatim>\<open>result_\<close> it points to.
\<close>

record platform =
  little_endian :: bool
  IsIpv6LoopbackAvailable :: bool
  ares_strerror :: "int \<Rightarrow> string"
  SplitHostPort :: "string \<Rightarrow> string \<times> string"
  SimpleAtoi :: "string \<Rightarrow> int option"
  ipv4_literal :: "string \<Rightarrow> string option"
  ipv6_literal :: "string \<Rightarrow> string option"
  error_create_code :: StatusCode
  address_sorting_rfc_6724_sort ::
    "(ResolvedAddress \<times> nat) list \<Rightarrow> (ResolvedAddress \<times> nat) list"

text \<open>
  The macro \<^verbatim>\<open>GRPC_ERROR_CREATE(message)\<close> is declared in
  \<^verbatim>\<open>src/core/lib/iomgr/error.h\<close>, which is missing. No call names a status code: every
  error the macro builds has the same code, the parameter \<open>error_create_code\<close>.
\<close>

definition GRPC_ERROR_CREATE :: "platform \<Rightarrow> string \<Rightarrow> Status" where
  "GRPC_ERROR_CREATE pf msg = StatusCreate (error_create_code pf) msg"

section \<open>Host and port texts\<close>

text \<open>
  Decimal numerals: the value of a digit string, and the decimal digits of a number,
  after a minus sign when it is negative.
\<close>

definition digit_val :: "char \<Rightarrow> nat option" where
  "digit_val c = map_of (zip ''0123456789'' [0, 1, 2, 3, 4, 5, 6, 7, 8, 9]) c"

fun atoi_acc :: "string \<Rightarrow> nat \<Rightarrow> nat option" where
  "atoi_acc [] n = Some n"
| "atoi_acc (c # cs) n =
     (case digit_val c of None \<Rightarrow> None | Some d \<Rightarrow> atoi_acc cs (10 * n + d))"

definition digit_char :: "nat \<Rightarrow> char" where
  "digit_char d = ''0123456789'' ! d"

fun decimal_nat :: "nat \<Rightarrow> string" where
  "decimal_nat n =
     (if n < 10 then [digit_char n] else decimal_nat (n div 10) @ [digit_char (n mod 10)])"

declare decimal_nat.simps [simp del]

definition decimal_int :: "int \<Rightarrow> string" where
  "decimal_int i =
     (if i < 0 then CHR ''-'' # decimal_nat (nat (- i)) else decimal_nat (nat i))"

text \<open>
  Modelled from the spec: \<^verbatim>\<open>JoinHostPort\<close> (\<^verbatim>\<open>gprpp/host_port.cc\<close>) and the literal
  parsers \<^verbatim>\<open>grpc_parse_ipv4_hostport\<close> and \<^verbatim>\<open>grpc_parse_ipv6_hostport\<close>
  (\<^verbatim>\<open>address_utils/parse_address.cc\<close>) are missing. The spec has the fast path
  reassemble \<^verbatim>\<open>host:port\<close> and parse it as an IPv4 or IPv6 literal, whose address
  carries the port in network byte order. The joined text is the host, a colon and the
  port in decimal. A parser takes the text after the last colon as the port, a decimal
  numeral of at most 65535, and the text before that colon as the host, which has to
  be an address literal of the parser's family; it answers the socket address of the
  literal with the port in network byte order.
\<close>

definition JoinHostPort :: "string \<Rightarrow> int \<Rightarrow> string" where
  "JoinHostPort h p = h @ '':'' @ decimal_int p"

definition port_part :: "string \<Rightarrow> string" where
  "port_part hostport = rev (takeWhile (\<lambda>c. c \<noteq> CHR '':'') (rev hostport))"

definition host_part :: "string \<Rightarrow> string" where
  "host_part hostport = rev (drop 1 (dropWhile (\<lambda>c. c \<noteq> CHR '':'') (rev hostport)))"

definition port_value :: "string \<Rightarrow> nat option" where
  "port_value t =
     (if t = [] then None
      else (case atoi_acc t 0 of
              None \<Rightarrow> None
            | Some n \<Rightarrow> if n \<le> 65535 then Some n else None))"

definition grpc_parse_ipv4_hostport :: "platform \<Rightarrow> string \<Rightarrow> ResolvedAddress option" where
  "grpc_parse_ipv4_hostport pf hostport =
     (if CHR '':'' \<notin> set hostport then None
      else (case ipv4_literal pf (host_part hostport) of
              None \<Rightarrow> None
            | Some b \<Rightarrow>
                (case port_value (port_part hostport) of
                   None \<Rightarrow> None
                 | Some n \<Rightarrow>
                     Some (sockaddr_in AF_INET (htons (little_endian pf) (word_of_nat n)) b))))"

definition grpc_parse_ipv6_hostport :: "platform \<Rightarrow> string \<Rightarrow> ResolvedAddress option" where
  "grpc_parse_ipv6_hostport pf hostport =
     (if CHR '':'' \<notin> set hostport then None
      else (case ipv6_literal pf (host_part hostport) of
              None \<Rightarrow> None
            | Some b \<Rightarrow>
                (case port_value (port_part hostport) of
                   None \<Rightarrow> None
                 | Some n \<Rightarrow>
                     Some (sockaddr_in6 AF_INET6 (htons (little_endian pf) (word_of_nat n)) b))))"

section \<open>The request\<close>

text \<open>
  A polled fd wraps one stub socket and records the statuses it was shut down with.
\<close>

record GrpcPolledFd =
  wrapped_socket :: int
  shutdowns :: "Status list"

definition ShutdownLocked :: "Status \<Rightarrow> GrpcPolledFd \<Rightarrow> GrpcPolledFd" where
  "ShutdownLocked st p = p\<lparr>shutdowns := shutdowns p @ [st]\<rparr>"

record FdNode =
  as :: int
  polled_fd :: GrpcPolledFd
  readable_registered :: bool
  writable_registered :: bool
  already_shutdown :: bool

text \<open>The constructor \<^verbatim>\<open>FdNode(as, polled_fd)\<close> with a polled fd the factory just made.\<close>

definition new_FdNode :: "int \<Rightarrow> FdNode" where
  "new_FdNode sock =
     \<lparr>as = sock, polled_fd = \<lparr>wrapped_socket = sock, shutdowns = []\<rparr>,
      readable_registered = False, writable_registered = False, already_shutdown = False\<rparr>"

text \<open>What a posted closure hands to the user callback.\<close>

datatype resolve_arg =
  HostnameResult "ResolvedAddress list StatusOr"
| SRVResult "SRVRecord list StatusOr"
| TXTResult "string StatusOr"

text \<open>
  What the request does to the world, in the order it does it: closures given to the
  event engine, timers armed and cancelled, stub calls, readiness registrations, and
  nodes deleted. A call of \<^verbatim>\<open>ares_gethostbyname\<close> is logged with the value of
  \<^verbatim>\<open>pending_queries_\<close> at the call, which is what a completion callback invoked inline
  would find.
\<close>

datatype effect =
  Run resolve_arg
| RunAfter nat
| EngineCancel nat
| ares_gethostbyname string int int
| ares_query string
| ares_search string
| ares_destroy
| NewGrpcPolledFdLocked int
| RegisterForOnReadableLocked int
| RegisterForOnWriteableLocked int
| DeleteFdNode FdNode

text \<open>
  The members of \<^verbatim>\<open>GrpcAresRequest\<close> and of its three subclasses that the functions
  below read or write (their declarations are in the missing header \<^verbatim>\<open>ares_driver.h\<close>).
  \<open>port\<close> is the integer \<^verbatim>\<open>SimpleAtoi\<close> stored; \<^verbatim>\<open>htons\<close> takes its low 16 bits.
  \<open>on_resolve\<close> tells whether \<^verbatim>\<open>on_resolve_\<close> holds the user callback, \<open>refs\<close> is the
  reference count, \<open>trace\<close> the effects so far.
\<close>

record request =
  name :: string
  default_port :: string
  host :: string
  port :: int
  fd_node_list :: "FdNode list"
  timeout :: int
  query_timeout_handle :: "nat option"
  ares_backup_poll_alarm_handle :: "nat option"
  initialized :: bool
  shutting_down :: bool
  cancelled :: bool
  on_resolve :: bool
  refs :: int
  pending_queries :: int
  result :: "ResolvedAddress list"
  error :: Status
  service_name :: string
  config_name :: string
  trace :: "effect list"

text \<open>
  Modelled from the spec: the constructors' member initialisers are in the missing
  header \<^verbatim>\<open>ares_driver.h\<close>. A fresh request holds one reference, has no pending query,
  no address, an ok error and no flag set.
\<close>

definition new_request :: "string \<Rightarrow> string \<Rightarrow> int \<Rightarrow> request" where
  "new_request nm dport tmo =
     \<lparr>name = nm, default_port = dport, host = [], port = 0, fd_node_list = [],
      timeout = tmo, query_timeout_handle = None, ares_backup_poll_alarm_handle = None,
      initialized = False, shutting_down = False, cancelled = False, on_resolve = False,
      refs = 1, pending_queries = 0, result = [], error = OkStatus, service_name = [],
      config_name = [], trace = []\<rparr>"

definition emit :: "effect \<Rightarrow> request \<Rightarrow> request" where
  "emit e s = s\<lparr>trace := trace s @ [e]\<rparr>"

text \<open>The closures posted with \<^verbatim>\<open>event_engine_->Run\<close>, oldest first.\<close>

fun posted :: "effect list \<Rightarrow> resolve_arg list" where
  "posted [] = []"
| "posted (Run a # es) = a # posted es"
| "posted (e # es) = posted es"

text \<open>
  \<^verbatim>\<open>Ref\<close> and \<^verbatim>\<open>Unref\<close> count references; the destruction at zero is not part of
  this model.
\<close>

definition Ref :: "request \<Rightarrow> request" where
  "Ref s = s\<lparr>refs := refs s + 1\<rparr>"

definition Unref :: "request \<Rightarrow> request" where
  "Unref s = s\<lparr>refs := refs s - 1\<rparr>"

text \<open>
  \<^verbatim>\<open>CancelTimers\<close>. \<open>answers\<close> are the engine's answers to the two \<^verbatim>\<open>Cancel\<close> calls:
  true when the timer will not run.
\<close>

definition CancelTimers :: "bool \<times> bool \<Rightarrow> request \<Rightarrow> request" where
  "CancelTimers answers s =
     (let s1 = (case query_timeout_handle s of
                  None \<Rightarrow> s
                | Some h \<Rightarrow>
                    (let t = emit (EngineCancel h) s;
                         t' = (if fst answers then Unref t else t)
                     in t'\<lparr>query_timeout_handle := None\<rparr>))
      in case ares_backup_poll_alarm_handle s1 of
           None \<Rightarrow> s1
         | Some h \<Rightarrow>
             (let t = emit (EngineCancel h) s1;
                  t' = (if snd answers then Unref t else t)
              in t'\<lparr>ares_backup_poll_alarm_handle := None\<rparr>))"

text \<open>\<^verbatim>\<open>StartTimers\<close>; \<open>handles\<close> are the handles \<^verbatim>\<open>RunAfter\<close> returns.\<close>

definition StartTimers :: "nat \<times> nat \<Rightarrow> request \<Rightarrow> request" where
  "StartTimers handles s =
     (let s1 = (emit (RunAfter (fst handles)) (Ref s))\<lparr>query_timeout_handle := Some (fst handles)\<rparr>
      in (emit (RunAfter (snd handles)) (Ref s1))
           \<lparr>ares_backup_poll_alarm_handle := Some (snd handles)\<rparr>)"

definition shutdown_node :: "Status \<Rightarrow> FdNode \<Rightarrow> FdNode" where
  "shutdown_node st n =
     (if \<not> already_shutdown n
      then n\<lparr>polled_fd := ShutdownLocked st (polled_fd n), already_shutdown := True\<rparr>
      else n)"

definition ShutdownPollerHandlesLocked :: "Status \<Rightarrow> request \<Rightarrow> request" where
  "ShutdownPollerHandlesLocked st s = s\<lparr>fd_node_list := map (shutdown_node st) (fd_node_list s)\<rparr>"

text \<open>\<^verbatim>\<open>Cancel\<close>: the answer and the request after it.\<close>

definition Cancel :: "bool \<times> bool \<Rightarrow> request \<Rightarrow> bool \<times> request" where
  "Cancel answers s =
     (if shutting_down s then (False, s)
      else (True,
            ShutdownPollerHandlesLocked (StatusCreate kCancelled ''Cancel'')
              (CancelTimers answers (s\<lparr>shutting_down := True, cancelled := True\<rparr>))))"

definition OnQueryTimeout :: "request \<Rightarrow> request" where
  "OnQueryTimeout s =
     (let s1 = s\<lparr>query_timeout_handle := None\<rparr>;
          s2 = (if \<not> shutting_down s1
                then ShutdownPollerHandlesLocked
                       (StatusCreate kDeadlineExceeded ''OnQueryTimeout'')
                       (s1\<lparr>shutting_down := True\<rparr>)
                else s1)
      in Unref s2)"

text \<open>
  \<^verbatim>\<open>SortResolvedAddresses\<close>: the sortables carry a copy of each address and a pointer to
  it; after the sort the result is read back through the pointers.
\<close>

definition SortResolvedAddresses :: "platform \<Rightarrow> request \<Rightarrow> request outcome" where
  "SortResolvedAddresses pf s =
     (let sortables = zip (result s) [0..<length (result s)];
          sorted_sortables = address_sorting_rfc_6724_sort pf sortables
      in if length sorted_sortables = length (result s)
            \<and> list_all (\<lambda>x. snd x < length (result s)) sorted_sortables
         then Returns (s\<lparr>result := map (\<lambda>x. result s ! snd x) sorted_sortables\<rparr>)
         else Aborted OutOfBounds)"

text \<open>
  \<^verbatim>\<open>GrpcAresHostnameRequest::OnResolve\<close>, in three parts: the sub-query's outcome is
  added to \<^verbatim>\<open>result_\<close> or folded into \<^verbatim>\<open>error_\<close> (\<open>accumulate\<close>); when no query is
  pending any more, the request completes (\<open>Hostname_complete\<close>, the body of
  \<^verbatim>\<open>if (pending_queries_ == 0)\<close>). After \<^verbatim>\<open>std::move\<close> the members \<^verbatim>\<open>result_\<close> and
  \<^verbatim>\<open>error_\<close> are not read again; they keep their values here.
\<close>

fun accumulate :: "ResolvedAddress list StatusOr \<Rightarrow> request \<Rightarrow> request" where
  "accumulate (Value addrs) s = s\<lparr>result := result s @ addrs\<rparr>"
| "accumulate (Error st) s = s\<lparr>error := grpc_error_add_child (error s) st\<rparr>"

definition Hostname_complete :: "platform \<Rightarrow> bool \<times> bool \<Rightarrow> request \<Rightarrow> request outcome" where
  "Hostname_complete pf answers s =
     (if cancelled s then Returns (Unref s)
      else
        let s3 = CancelTimers answers (s\<lparr>shutting_down := True\<rparr>)
        in if result s3 \<noteq> [] then
             (case SortResolvedAddresses pf s3 of
                Aborted f \<Rightarrow> Aborted f
              | Returns s4 \<Rightarrow>
                  Returns (Unref (emit (Run (HostnameResult (Value (result s4))))
                                    (s4\<lparr>on_resolve := False\<rparr>))))
           else if ok (error s3) then Aborted (AssertFailed ''!error_.ok()'')
           else Returns (Unref (emit (Run (HostnameResult (Error (error s3))))
                                  (s3\<lparr>on_resolve := False\<rparr>))))"

definition Hostname_OnResolve ::
  "platform \<Rightarrow> bool \<times> bool \<Rightarrow> ResolvedAddress list StatusOr \<Rightarrow> request \<Rightarrow> request outcome"
where
  "Hostname_OnResolve pf answers res s =
     (if \<not> pending_queries s > 0 then Aborted (AssertFailed ''pending_queries_ > 0'')
      else
        let s2 = accumulate res (s\<lparr>pending_queries := pending_queries s - 1\<rparr>)
        in if pending_queries s2 = 0 then Hostname_complete pf answers s2 else Returns s2)"

definition SRV_OnResolve :: "bool \<times> bool \<Rightarrow> SRVRecord list StatusOr \<Rightarrow> request \<Rightarrow> request" where
  "SRV_OnResolve answers res s =
     (if cancelled s then Unref s
      else
        let s1 = CancelTimers answers (s\<lparr>shutting_down := True\<rparr>)
        in Unref (emit (Run (SRVResult res)) (s1\<lparr>on_resolve := False\<rparr>)))"

definition TXT_OnResolve :: "bool \<times> bool \<Rightarrow> string StatusOr \<Rightarrow> request \<Rightarrow> request" where
  "TXT_OnResolve answers res s =
     (if cancelled s then Unref s
      else
        let s1 = CancelTimers answers (s\<lparr>shutting_down := True\<rparr>)
        in Unref (emit (Run (TXTResult res)) (s1\<lparr>on_resolve := False\<rparr>)))"

section \<open>The stub's completion callbacks\<close>

text \<open>
  The loop of \<^verbatim>\<open>OnHostbynameDoneLocked\<close> over \<^verbatim>\<open>h_addr_list\<close>: \<open>p\<close> is
  \<^verbatim>\<open>htons(request->port_)\<close>, \<open>ty\<close> is \<^verbatim>\<open>h_addrtype\<close>. \<^verbatim>\<open>memcpy\<close> reads 16 or 4 bytes
  from the entry; an address type that is neither case of the \<^verbatim>\<open>switch\<close> adds nothing.
  The family field is \<^verbatim>\<open>static_cast<unsigned char>(h_addrtype)\<close>.
\<close>

fun hostent_addresses :: "16 word \<Rightarrow> int \<Rightarrow> string list \<Rightarrow> ResolvedAddress list outcome" where
  "hostent_addresses p ty [] = Returns []"
| "hostent_addresses p ty (a # rest) =
     (if ty = AF_INET6 then
        (case read_bytes a 16 of
           None \<Rightarrow> Aborted OutOfBounds
         | Some b \<Rightarrow>
             (case hostent_addresses p ty rest of
                Aborted f \<Rightarrow> Aborted f
              | Returns r \<Rightarrow> Returns (sockaddr_in6 (ty mod 256) p b # r)))
      else if ty = AF_INET then
        (case read_bytes a 4 of
           None \<Rightarrow> Aborted OutOfBounds
         | Some b \<Rightarrow>
             (case hostent_addresses p ty rest of
                Aborted f \<Rightarrow> Aborted f
              | Returns r \<Rightarrow> Returns (sockaddr_in (ty mod 256) p b # r)))
      else hostent_addresses p ty rest)"

definition OnHostbynameDoneLocked ::
  "platform \<Rightarrow> bool \<times> bool \<Rightarrow> string \<Rightarrow> int \<Rightarrow> hostent \<Rightarrow> request \<Rightarrow> request outcome"
where
  "OnHostbynameDoneLocked pf answers qtype status he s =
     (if status \<noteq> ARES_SUCCESS then
        Hostname_OnResolve pf answers
          (Error (GRPC_ERROR_CREATE pf
             (''c-ares status is not ARES_SUCCESS qtype='' @ qtype @ '' name='' @ host s
                @ '': '' @ ares_strerror pf status))) s
      else
        (case hostent_addresses (htons (little_endian pf) (word_of_int (port s)))
                (h_addrtype he) (h_addr_list he) of
           Aborted f \<Rightarrow> Aborted f
         | Returns resolved_addresses \<Rightarrow>
             Hostname_OnResolve pf answers (Value resolved_addresses) s))"

text \<open>
  \<^verbatim>\<open>struct ares_srv_reply\<close> of c-ares, the chain as a list. \<open>parse\<close> is what
  \<^verbatim>\<open>ares_parse_srv_reply\<close> answers: its status and the chain.
\<close>

record ares_srv_reply =
  reply_host :: string
  reply_port :: int
  reply_priority :: int
  reply_weight :: int

definition OnSRVQueryDoneLocked ::
  "platform \<Rightarrow> bool \<times> bool \<Rightarrow> int \<Rightarrow> int \<times> ares_srv_reply list \<Rightarrow> request \<Rightarrow> request"
where
  "OnSRVQueryDoneLocked pf answers status parse s =
     (if status \<noteq> ARES_SUCCESS then
        SRV_OnResolve answers
          (Error (GRPC_ERROR_CREATE pf
             (''c-ares status is not ARES_SUCCESS qtype=SRV name='' @ service_name s
                @ '': '' @ ares_strerror pf status))) s
      else
        let res = (if fst parse = ARES_SUCCESS
                   then map (\<lambda>r. \<lparr>srv_host = reply_host r, srv_port = reply_port r,
                                   srv_priority = reply_priority r, srv_weight = reply_weight r\<rparr>)
                          (snd parse)
                   else [])
        in SRV_OnResolve answers (Value res) s)"

text \<open>
  \<^verbatim>\<open>OnTXTDoneLocked\<close>. \<open>status\<close> is the stub's status; \<open>parse\<close> is what
  \<^verbatim>\<open>ares_parse_txt_reply_ext\<close> answers on the buffer (its status and the chain), called
  only when the stub reports success.
\<close>

definition OnTXTDoneLocked ::
  "platform \<Rightarrow> bool \<times> bool \<Rightarrow> int \<Rightarrow> int \<times> ares_txt_ext list \<Rightarrow> request \<Rightarrow> request outcome"
where
  "OnTXTDoneLocked pf answers status parse s =
     (let parse_status = (if status = ARES_SUCCESS then fst parse else ARES_SUCCESS);
          reply = (if status = ARES_SUCCESS then snd parse else [])
      in if status \<noteq> ARES_SUCCESS \<or> parse_status \<noteq> ARES_SUCCESS then
           Returns (TXT_OnResolve answers
             (Error (GRPC_ERROR_CREATE pf
                (''c-ares status is not ARES_SUCCESS qtype=TXT name='' @ config_name s @ '': ''
                   @ ares_strerror pf status))) s)
         else (case service_config_json_out reply of
                 Aborted f \<Rightarrow> Aborted f
               | Returns out \<Rightarrow> Returns (TXT_OnResolve answers (Value out) s)))"

section \<open>The socket-tracking loop\<close>

definition ARES_GETSOCK_MAXNUM :: nat where
  "ARES_GETSOCK_MAXNUM = 16"

definition ARES_GETSOCK_READABLE :: "32 word \<Rightarrow> nat \<Rightarrow> bool" where
  "ARES_GETSOCK_READABLE bits num = (bits AND push_bit num 1 \<noteq> 0)"

definition ARES_GETSOCK_WRITABLE :: "32 word \<Rightarrow> nat \<Rightarrow> bool" where
  "ARES_GETSOCK_WRITABLE bits num = (bits AND push_bit (num + ARES_GETSOCK_MAXNUM) 1 \<noteq> 0)"

text \<open>
  \<^verbatim>\<open>FdNodeList::PopFdNode(as)\<close>: unlinks the first node whose polled fd wraps the socket.
\<close>

fun PopFdNode_as :: "int \<Rightarrow> FdNode list \<Rightarrow> FdNode option \<times> FdNode list" where
  "PopFdNode_as sock [] = (None, [])"
| "PopFdNode_as sock (n # ns) =
     (if wrapped_socket (polled_fd n) = sock then (Some n, ns)
      else (case PopFdNode_as sock ns of (r, ns') \<Rightarrow> (r, n # ns')))"

text \<open>
  Modelled from the spec: \<^verbatim>\<open>PushFdNode\<close>, \<^verbatim>\<open>PopFdNode()\<close> and \<^verbatim>\<open>IsEmpty\<close> are defined in
  the missing header \<^verbatim>\<open>ares_driver.h\<close>. The list is an ordered collection linked from
  its head: a push links the node in front, \<^verbatim>\<open>PopFdNode()\<close> unlinks the front node.
\<close>

definition PushFdNode :: "FdNode \<Rightarrow> FdNode list \<Rightarrow> FdNode list" where
  "PushFdNode n ns = n # ns"

text \<open>
  One turn of the \<^verbatim>\<open>for\<close> loop of \<^verbatim>\<open>Work\<close>, on slot \<open>i\<close>. The source pushes the node and
  then sets its flags through the pointer; here the node is pushed with the flags set.
  Every registration takes a reference.
\<close>

definition Work_slot ::
  "(nat \<Rightarrow> int) \<Rightarrow> 32 word \<Rightarrow> nat \<Rightarrow> request \<times> FdNode list \<Rightarrow> request \<times> FdNode list"
where
  "Work_slot socks socks_bitmask i st =
     (let s = fst st; new_list = snd st in
      if ARES_GETSOCK_READABLE socks_bitmask i \<or> ARES_GETSOCK_WRITABLE socks_bitmask i then
        let found = PopFdNode_as (socks i) (fd_node_list s);
            s1 = s\<lparr>fd_node_list := snd found\<rparr>;
            fd_node = (case fst found of Some n \<Rightarrow> n | None \<Rightarrow> new_FdNode (socks i));
            s2 = (case fst found of
                    Some n \<Rightarrow> s1
                  | None \<Rightarrow> emit (NewGrpcPolledFdLocked (socks i)) s1);
            rd = (ARES_GETSOCK_READABLE socks_bitmask i \<and> \<not> readable_registered fd_node);
            fd_node1 = (if rd then fd_node\<lparr>readable_registered := True\<rparr> else fd_node);
            s3 = (if rd
                  then emit (RegisterForOnReadableLocked (wrapped_socket (polled_fd fd_node)))
                         (Ref s2)
                  else s2);
            wr = (ARES_GETSOCK_WRITABLE socks_bitmask i \<and> \<not> writable_registered fd_node1);
            fd_node2 = (if wr then fd_node1\<lparr>writable_registered := True\<rparr> else fd_node1);
            s4 = (if wr
                  then emit (RegisterForOnWriteableLocked (wrapped_socket (polled_fd fd_node)))
                         (Ref s3)
                  else s3)
        in (s4, PushFdNode fd_node2 new_list)
      else (s, new_list))"

text \<open>
  The \<^verbatim>\<open>while\<close> loop of \<^verbatim>\<open>Work\<close> over the nodes left in \<^verbatim>\<open>fd_node_list_\<close>: the new list
  and the nodes deleted, in order.
\<close>

fun Work_remaining ::
  "FdNode list \<Rightarrow> FdNode list \<times> effect list \<Rightarrow> FdNode list \<times> effect list"
where
  "Work_remaining [] acc = acc"
| "Work_remaining (n # ns) acc =
     (let fd_node = shutdown_node OkStatus n in
      if \<not> readable_registered fd_node \<and> \<not> writable_registered fd_node
      then Work_remaining ns (fst acc, snd acc @ [DeleteFdNode fd_node])
      else Work_remaining ns (PushFdNode fd_node (fst acc), snd acc))"

text \<open>
  \<^verbatim>\<open>Work\<close>. \<open>getsock\<close> is what \<^verbatim>\<open>ares_getsock\<close> answers: the array of sockets and the
  bitmask. \<open>Work_first\<close> is the part under \<^verbatim>\<open>if (!shutting_down_)\<close>: the request, with
  the nodes left in its list, and the new list.
\<close>

definition Work_first :: "(nat \<Rightarrow> int) \<times> 32 word \<Rightarrow> request \<Rightarrow> request \<times> FdNode list" where
  "Work_first getsock s =
     (if \<not> shutting_down s
      then fold (Work_slot (fst getsock) (snd getsock)) [0..<ARES_GETSOCK_MAXNUM] (s, [])
      else (s, []))"

definition Work :: "(nat \<Rightarrow> int) \<times> 32 word \<Rightarrow> request \<Rightarrow> request" where
  "Work getsock s =
     (let st = Work_first getsock s;
          fin = Work_remaining (fd_node_list (fst st)) (snd st, [])
      in (fst st)\<lparr>fd_node_list := fst fin, trace := trace (fst st) @ snd fin\<rparr>)"

text \<open>The sockets the stub is interested in, and what one call added to the trace.\<close>

definition wanted_sockets :: "(nat \<Rightarrow> int) \<times> 32 word \<Rightarrow> int list" where
  "wanted_sockets getsock =
     map (fst getsock)
       (filter (\<lambda>i. ARES_GETSOCK_READABLE (snd getsock) i \<or> ARES_GETSOCK_WRITABLE (snd getsock) i)
          [0..<ARES_GETSOCK_MAXNUM])"

definition effects_since :: "request \<Rightarrow> request \<Rightarrow> effect list" where
  "effects_since s s' = drop (length (trace s)) (trace s')"

text \<open>A slot the stub wants read or written; a node with a registration outstanding.\<close>

definition slot_wanted :: "32 word \<Rightarrow> nat \<Rightarrow> bool" where
  "slot_wanted bits i = (ARES_GETSOCK_READABLE bits i \<or> ARES_GETSOCK_WRITABLE bits i)"

definition registered :: "FdNode \<Rightarrow> bool" where
  "registered m = (readable_registered m \<or> writable_registered m)"

definition no_delete :: "effect list \<Rightarrow> bool" where
  "no_delete es = (\<forall>m. DeleteFdNode m \<notin> set es)"

text \<open>
  A request tracking three sockets: 5 with a read callback outstanding, 6 with none,
  7 with none; the stub now wants to read socket 7 only.
\<close>

definition node_ex :: "int \<Rightarrow> bool \<Rightarrow> FdNode" where
  "node_ex sock rd = (new_FdNode sock)\<lparr>readable_registered := rd\<rparr>"

definition request_ex :: request where
  "request_ex =
     (new_request ''example.test:8080'' [] 0)
       \<lparr>host := ''example.test'', port := 8080, initialized := True,
        fd_node_list := [node_ex 5 True, node_ex 6 False, node_ex 7 False]\<rparr>"

definition getsock_ex :: "(nat \<Rightarrow> int) \<times> 32 word" where
  "getsock_ex = ((\<lambda>i. if i = 0 then 7 else 0), 1)"

section \<open>Start\<close>

text \<open>
  What the stub and the engine answer during one \<^verbatim>\<open>Start\<close>: for each query, the
  completion the stub delivers inline (before the issuing call returns), if any; the
  sockets \<^verbatim>\<open>ares_getsock\<close> names; the timer handles; the engine's answers to
  \<^verbatim>\<open>Cancel\<close>.
\<close>

record stub_script =
  inline_AAAA :: "(int \<times> hostent) option"
  inline_A :: "(int \<times> hostent) option"
  inline_SRV :: "(int \<times> int \<times> ares_srv_reply list) option"
  inline_TXT :: "(int \<times> int \<times> ares_txt_ext list) option"
  getsock_answer :: "(nat \<Rightarrow> int) \<times> 32 word"
  timer_handles :: "nat \<times> nat"
  cancel_answers :: "bool \<times> bool"

definition ResolveAsIPLiteralLocked :: "platform \<Rightarrow> request \<Rightarrow> bool \<times> request" where
  "ResolveAsIPLiteralLocked pf s =
     (let hostport = JoinHostPort (host s) (port s);
          addr = (case grpc_parse_ipv4_hostport pf hostport of
                    Some a \<Rightarrow> Some a
                  | None \<Rightarrow> grpc_parse_ipv6_hostport pf hostport)
      in case addr of
           Some a \<Rightarrow>
             (True, emit (Run (HostnameResult (Value [a]))) (s\<lparr>on_resolve := False\<rparr>))
         | None \<Rightarrow> (False, s))"

text \<open>
  A call of \<^verbatim>\<open>ares_gethostbyname\<close>: it is logged, and the stub may run
  \<^verbatim>\<open>OnHostbynameDoneLocked\<close> before it returns.
\<close>

definition call_ares_gethostbyname ::
  "platform \<Rightarrow> bool \<times> bool \<Rightarrow> string \<Rightarrow> int \<Rightarrow> (int \<times> hostent) option \<Rightarrow> request
     \<Rightarrow> request outcome"
where
  "call_ares_gethostbyname pf ans qtype family inline s =
     (let s1 = emit (ares_gethostbyname (host s) family (pending_queries s)) s
      in case inline of
           None \<Rightarrow> Returns s1
         | Some c \<Rightarrow> OnHostbynameDoneLocked pf ans qtype (fst c) (snd c) s1)"

text \<open>
  \<^verbatim>\<open>GrpcAresHostnameRequest::Start\<close>. The reference \<^verbatim>\<open>self\<close> is dropped when the function
  returns.
\<close>

definition Hostname_Start :: "platform \<Rightarrow> stub_script \<Rightarrow> request \<Rightarrow> request outcome" where
  "Hostname_Start pf sc s =
     (let s0 = Ref s in
      if \<not> initialized s0 then Aborted (AssertFailed ''initialized_'')
      else
        let lit = ResolveAsIPLiteralLocked pf (s0\<lparr>on_resolve := True\<rparr>) in
        if fst lit then Returns (Unref (Unref (snd lit)))
        else
          let s1 = snd lit;
              s2 = s1\<lparr>pending_queries := pending_queries s1 + 1\<rparr>
          in case (if IsIpv6LoopbackAvailable pf
                   then call_ares_gethostbyname pf (cancel_answers sc) ''AAAA'' AF_INET6
                          (inline_AAAA sc) (s2\<lparr>pending_queries := pending_queries s2 + 1\<rparr>)
                   else Returns s2) of
               Aborted f \<Rightarrow> Aborted f
             | Returns s3 \<Rightarrow>
                 (case call_ares_gethostbyname pf (cancel_answers sc) ''A'' AF_INET (inline_A sc) s3 of
                    Aborted f \<Rightarrow> Aborted f
                  | Returns s4 \<Rightarrow>
                      Returns (Unref (if \<not> shutting_down s4
                                      then StartTimers (timer_handles sc) (Work (getsock_answer sc) s4)
                                      else s4))))"

text \<open>
  Modelled from the spec: \<^verbatim>\<open>gpr_stricmp\<close> is defined in \<^verbatim>\<open>src/core/lib/gpr/string.cc\<close>,
  which is missing. It compares case-insensitively and answers 0 on equal strings.
\<close>

definition ascii_tolower :: "char \<Rightarrow> char" where
  "ascii_tolower c =
     (case map_of (zip ''ABCDEFGHIJKLMNOPQRSTUVWXYZ'' ''abcdefghijklmnopqrstuvwxyz'') c of
        None \<Rightarrow> c
      | Some l \<Rightarrow> l)"

definition gpr_stricmp :: "string \<Rightarrow> string \<Rightarrow> int" where
  "gpr_stricmp a b = (if map ascii_tolower a = map ascii_tolower b then 0 else 1)"

definition SRV_Start :: "platform \<Rightarrow> stub_script \<Rightarrow> request \<Rightarrow> request outcome" where
  "SRV_Start pf sc s =
     (let s0 = Ref s in
      if \<not> initialized s0 then Aborted (AssertFailed ''initialized_'')
      else if gpr_stricmp (host s0) ''localhost'' = 0 then
        Returns (Unref (Unref (emit (Run (SRVResult (Error (GRPC_ERROR_CREATE pf
                   ''Skip querying for SRV records for localhost target'')))) s0)))
      else
        let s1 = s0\<lparr>on_resolve := True, service_name := ''_grpclb._tcp.'' @ host s0\<rparr>;
            s2 = emit (ares_query (service_name s1)) s1;
            s3 = (case inline_SRV sc of
                    None \<Rightarrow> s2
                  | Some c \<Rightarrow> OnSRVQueryDoneLocked pf (cancel_answers sc) (fst c) (snd c) s2)
        in Returns (Unref (if \<not> shutting_down s3
                           then StartTimers (timer_handles sc) (Work (getsock_answer sc) s3)
                           else s3)))"

definition TXT_Start :: "platform \<Rightarrow> stub_script \<Rightarrow> request \<Rightarrow> request outcome" where
  "TXT_Start pf sc s =
     (let s0 = Ref s in
      if \<not> initialized s0 then Aborted (AssertFailed ''initialized_'')
      else if gpr_stricmp (host s0) ''localhost'' = 0 then
        Returns (Unref (Unref (emit (Run (TXTResult (Error (GRPC_ERROR_CREATE pf
                   ''Skip querying for TXT records localhost target'')))) s0)))
      else
        let s1 = s0\<lparr>on_resolve := True, config_name := ''_grpc_config.'' @ host s0\<rparr>;
            s2 = emit (ares_search (config_name s1)) s1
        in case (case inline_TXT sc of
                   None \<Rightarrow> Returns s2
                 | Some c \<Rightarrow> OnTXTDoneLocked pf (cancel_answers sc) (fst c) (snd c) s2) of
             Aborted f \<Rightarrow> Aborted f
           | Returns s3 \<Rightarrow>
               Returns (Unref (if \<not> shutting_down s3
                               then StartTimers (timer_handles sc) (Work (getsock_answer sc) s3)
                               else s3)))"

section \<open>Initialize and Create\<close>

text \<open>
  \<^verbatim>\<open>SetRequestDNSServer\<close>; \<open>set_status\<close> is the status of \<^verbatim>\<open>ares_set_servers_ports\<close>.
\<close>

definition SetRequestDNSServer :: "platform \<Rightarrow> int \<Rightarrow> string \<Rightarrow> Status" where
  "SetRequestDNSServer pf set_status dns_server =
     (if dns_server \<noteq> [] then
        (case grpc_parse_ipv4_hostport pf dns_server of
           None \<Rightarrow>
             (case grpc_parse_ipv6_hostport pf dns_server of
                None \<Rightarrow> GRPC_ERROR_CREATE pf (''cannot parse authority '' @ dns_server)
              | Some a \<Rightarrow>
                  if set_status \<noteq> ARES_SUCCESS
                  then GRPC_ERROR_CREATE pf
                         (''c-ares status is not ARES_SUCCESS: '' @ ares_strerror pf set_status)
                  else OkStatus)
         | Some a \<Rightarrow>
             if set_status \<noteq> ARES_SUCCESS
             then GRPC_ERROR_CREATE pf
                    (''c-ares status is not ARES_SUCCESS: '' @ ares_strerror pf set_status)
             else OkStatus)
      else OkStatus)"

text \<open>
  \<^verbatim>\<open>Initialize\<close>; \<open>stub\<close> holds the statuses of \<^verbatim>\<open>ares_init_options\<close> and of
  \<^verbatim>\<open>ares_set_servers_ports\<close>. It answers a status and leaves the request changed, or
  stops at its \<^verbatim>\<open>GPR_ASSERT\<close>. (\<^verbatim>\<open>GPR_DEBUG_ASSERT(!initialized_)\<close> is compiled out of
  release builds and is not modelled.)
\<close>

definition Initialize ::
  "platform \<Rightarrow> int \<times> int \<Rightarrow> string \<Rightarrow> bool \<Rightarrow> request \<Rightarrow> (Status \<times> request) outcome"
where
  "Initialize pf stub dns_server check_port s =
     (let split = SplitHostPort pf (name s);
          s1 = s\<lparr>host := fst split\<rparr>
      in if host s1 = [] then
           Returns (grpc_error_set_str (GRPC_ERROR_CREATE pf ''unparseable host:port'') (name s1), s1)
         else if check_port \<and> snd split = [] \<and> default_port s1 = [] then
           Returns (grpc_error_set_str (GRPC_ERROR_CREATE pf ''no port in name'') (name s1), s1)
         else
           let port_str = (if check_port \<and> snd split = [] then default_port s1 else snd split)
           in case (if port_str \<noteq> [] then
                      (case SimpleAtoi pf port_str of
                         None \<Rightarrow> Aborted (AssertFailed ''absl::SimpleAtoi(port, &port_)'')
                       | Some p \<Rightarrow> Returns (s1\<lparr>port := p\<rparr>))
                    else Returns s1) of
                Aborted f \<Rightarrow> Aborted f
              | Returns s2 \<Rightarrow>
                  if fst stub \<noteq> ARES_SUCCESS then
                    Returns (GRPC_ERROR_CREATE pf
                               (''Failed to init ares channel. c-ares error: ''
                                  @ ares_strerror pf (fst stub)), s2)
                  else
                    let err = SetRequestDNSServer pf (snd stub) dns_server
                    in if \<not> ok err then Returns (err, emit ares_destroy s2)
                       else Returns (OkStatus, s2\<lparr>initialized := True\<rparr>))"

text \<open>
  The three \<^verbatim>\<open>Create\<close> functions: a new request, initialized, or the status of
  \<^verbatim>\<open>Initialize\<close>. SRV and TXT requests have no default port.
\<close>

definition Create ::
  "platform \<Rightarrow> int \<times> int \<Rightarrow> string \<Rightarrow> string \<Rightarrow> string \<Rightarrow> bool \<Rightarrow> int \<Rightarrow> request StatusOr outcome"
where
  "Create pf stub nm dport dns_server check_port tmo =
     (case Initialize pf stub dns_server check_port (new_request nm dport tmo) of
        Aborted f \<Rightarrow> Aborted f
      | Returns r \<Rightarrow> if ok (fst r) then Returns (Value (snd r)) else Returns (Error (fst r)))"

definition GrpcAresHostnameRequest_Create ::
  "platform \<Rightarrow> int \<times> int \<Rightarrow> string \<Rightarrow> string \<Rightarrow> string \<Rightarrow> bool \<Rightarrow> int \<Rightarrow> request StatusOr outcome"
where
  "GrpcAresHostnameRequest_Create pf stub nm dport dns_server check_port tmo =
     Create pf stub nm dport dns_server check_port tmo"

definition GrpcAresSRVRequest_Create ::
  "platform \<Rightarrow> int \<times> int \<Rightarrow> string \<Rightarrow> int \<Rightarrow> string \<Rightarrow> bool \<Rightarrow> request StatusOr outcome"
where
  "GrpcAresSRVRequest_Create pf stub nm tmo dns_server check_port =
     Create pf stub nm [] dns_server check_port tmo"

definition GrpcAresTXTRequest_Create ::
  "platform \<Rightarrow> int \<times> int \<Rightarrow> string \<Rightarrow> int \<Rightarrow> string \<Rightarrow> bool \<Rightarrow> request StatusOr outcome"
where
  "GrpcAresTXTRequest_Create pf stub nm tmo dns_server check_port =
     Create pf stub nm [] dns_server check_port tmo"

section \<open>Runs\<close>

text \<open>
  What can happen to a started request: the caller cancels, the stub completes a
  query, the deadline fires, the sockets are reconciled.
\<close>

datatype event =
  EvCancel "bool \<times> bool"
| EvHostbynameDone "bool \<times> bool" string int hostent
| EvSRVQueryDone "bool \<times> bool" int "int \<times> ares_srv_reply list"
| EvTXTDone "bool \<times> bool" int "int \<times> ares_txt_ext list"
| EvQueryTimeout
| EvWork "(nat \<Rightarrow> int) \<times> 32 word"

fun step :: "platform \<Rightarrow> event \<Rightarrow> request \<Rightarrow> request outcome" where
  "step pf (EvCancel ans) s = Returns (snd (Cancel ans s))"
| "step pf (EvHostbynameDone ans qtype status he) s = OnHostbynameDoneLocked pf ans qtype status he s"
| "step pf (EvSRVQueryDone ans status parse) s = Returns (OnSRVQueryDoneLocked pf ans status parse s)"
| "step pf (EvTXTDone ans status parse) s = OnTXTDoneLocked pf ans status parse s"
| "step pf EvQueryTimeout s = Returns (OnQueryTimeout s)"
| "step pf (EvWork g) s = Returns (Work g s)"

fun run :: "platform \<Rightarrow> event list \<Rightarrow> request \<Rightarrow> request outcome" where
  "run pf [] s = Returns s"
| "run pf (e # es) s =
     (case step pf e s of Aborted f \<Rightarrow> Aborted f | Returns s' \<Rightarrow> run pf es s')"

section \<open>Vocabulary for the properties\<close>

text \<open>
  Effects by kind: a closure posted for the user callback, a query given to the stub,
  and the rest (timers, registrations, deletions).
\<close>

fun is_Run :: "effect \<Rightarrow> bool" where
  "is_Run (Run a) = True"
| "is_Run e = False"

fun is_query :: "effect \<Rightarrow> bool" where
  "is_query (ares_gethostbyname h f p) = True"
| "is_query (ares_query n) = True"
| "is_query (ares_search n) = True"
| "is_query e = False"

definition internal :: "effect \<Rightarrow> bool" where
  "internal e = (\<not> is_Run e \<and> \<not> is_query e)"

text \<open>
  \<open>follows P s s'\<close>: the request \<open>s'\<close> comes after \<open>s\<close>. Host and port are the same, the
  flags \<^verbatim>\<open>cancelled_\<close> and \<^verbatim>\<open>shutting_down_\<close> have not been cleared, and the trace has grown
  by effects that satisfy \<open>P\<close>.
\<close>

definition follows :: "(effect \<Rightarrow> bool) \<Rightarrow> request \<Rightarrow> request \<Rightarrow> bool" where
  "follows P s s' =
     (port s' = port s \<and> host s' = host s
      \<and> (cancelled s \<longrightarrow> cancelled s') \<and> (shutting_down s \<longrightarrow> shutting_down s')
      \<and> (\<exists>es. trace s' = trace s @ es \<and> list_all P es))"

text \<open>
  Whether \<^verbatim>\<open>ResolveAsIPLiteralLocked\<close> finds an IP literal: one of the two parsers accepts
  the request's joined host and port.
\<close>

definition is_ip_literal :: "platform \<Rightarrow> request \<Rightarrow> bool" where
  "is_ip_literal pf s =
     (grpc_parse_ipv4_hostport pf (JoinHostPort (host s) (port s)) \<noteq> None
      \<or> grpc_parse_ipv6_hostport pf (JoinHostPort (host s) (port s)) \<noteq> None)"

text \<open>
  The end of the three \<^verbatim>\<open>Start\<close> functions: \<^verbatim>\<open>Work\<close> and \<^verbatim>\<open>StartTimers\<close> unless the
  request is shutting down, then the reference \<^verbatim>\<open>self\<close> is dropped.
\<close>

definition Start_tail :: "stub_script \<Rightarrow> request \<Rightarrow> request" where
  "Start_tail sc s4 =
     Unref (if \<not> shutting_down s4
            then StartTimers (timer_handles sc) (Work (getsock_answer sc) s4) else s4)"


text \<open>
  The request's port in network byte order, as \<^verbatim>\<open>htons(request->port_)\<close> computes it;
  the address \<^verbatim>\<open>ResolveAsIPLiteralLocked\<close> gets from the literal parsers, if any; the
  address sequences handed to the user callback.
\<close>

definition network_port :: "platform \<Rightarrow> request \<Rightarrow> 16 word" where
  "network_port pf s = htons (little_endian pf) (word_of_int (port s))"

definition literal_address :: "platform \<Rightarrow> request \<Rightarrow> ResolvedAddress option" where
  "literal_address pf s =
     (case grpc_parse_ipv4_hostport pf (JoinHostPort (host s) (port s)) of
        Some a \<Rightarrow> Some a
      | None \<Rightarrow> grpc_parse_ipv6_hostport pf (JoinHostPort (host s) (port s)))"

definition ports_ok :: "16 word \<Rightarrow> ResolvedAddress list \<Rightarrow> bool" where
  "ports_ok p addrs = list_all (\<lambda>a. port_field a = p) addrs"

fun delivered :: "effect list \<Rightarrow> ResolvedAddress list list" where
  "delivered [] = []"
| "delivered (Run (HostnameResult (Value addrs)) # es) = addrs # delivered es"
| "delivered (e # es) = delivered es"

fun carries :: "16 word \<Rightarrow> effect \<Rightarrow> bool" where
  "carries p (Run (HostnameResult (Value addrs))) = ports_ok p addrs"
| "carries p e = True"

text \<open>
  The port text \<^verbatim>\<open>Initialize\<close> parses: the port part of the name, or the default port
  when \<^verbatim>\<open>check_port\<close> is set and the name has none.
\<close>

definition port_text :: "platform \<Rightarrow> string \<Rightarrow> string \<Rightarrow> bool \<Rightarrow> string" where
  "port_text pf nm dport check_port =
     (if check_port \<and> snd (SplitHostPort pf nm) = [] then dport else snd (SplitHostPort pf nm))"

section \<open>An example platform\<close>

text \<open>
  A platform for concrete runs: a little-endian host with IPv6 loopback, a
  \<^verbatim>\<open>SplitHostPort\<close> that splits at the first colon, a decimal \<^verbatim>\<open>SimpleAtoi\<close>, the one
  IPv4 literal \<^verbatim>\<open>1.2.3.4\<close>, no IPv6 literal, errors created with the code \<^verbatim>\<open>Unknown\<close>,
  and a sort that reverses its input.
\<close>

definition atoi_ex :: "string \<Rightarrow> int option" where
  "atoi_ex str = (if str = [] then None else map_option int (atoi_acc str 0))"

definition split_ex :: "string \<Rightarrow> string \<times> string" where
  "split_ex nm =
     (takeWhile (\<lambda>c. c \<noteq> CHR '':'') nm, drop 1 (dropWhile (\<lambda>c. c \<noteq> CHR '':'') nm))"

definition literal4_ex :: "string \<Rightarrow> string option" where
  "literal4_ex h =
     (if h = ''1.2.3.4'' then Some [CHR 0x01, CHR 0x02, CHR 0x03, CHR 0x04] else None)"

definition platform_ex :: platform where
  "platform_ex =
     \<lparr>little_endian = True, IsIpv6LoopbackAvailable = True,
      ares_strerror = (\<lambda>st. ''stub error''),
      SplitHostPort = split_ex, SimpleAtoi = atoi_ex,
      ipv4_literal = literal4_ex, ipv6_literal = (\<lambda>h. None),
      error_create_code = kUnknown,
      address_sorting_rfc_6724_sort = rev\<rparr>"

text \<open>
  A script in which the stub completes nothing inline, and the answers of the stub to
  a query for \<^verbatim>\<open>example.test\<close>: two IPv4 addresses, one IPv6 address, no address.
\<close>

definition script_ex :: stub_script where
  "script_ex =
     \<lparr>inline_AAAA = None, inline_A = None, inline_SRV = None, inline_TXT = None,
      getsock_answer = getsock_ex, timer_handles = (1, 2), cancel_answers = (True, True)\<rparr>"

definition hostent_A :: hostent where
  "hostent_A =
     \<lparr>h_addrtype = AF_INET,
      h_addr_list = [[CHR 0x0A, CHR 0x00, CHR 0x00, CHR 0x01],
                     [CHR 0x0A, CHR 0x00, CHR 0x00, CHR 0x02]]\<rparr>"

definition hostent_AAAA :: hostent where
  "hostent_AAAA =
     \<lparr>h_addrtype = AF_INET6, h_addr_list = [replicate 15 (CHR 0x00) @ [CHR 0x01]]\<rparr>"

definition hostent_empty :: hostent where
  "hostent_empty = \<lparr>h_addrtype = AF_INET, h_addr_list = []\<rparr>"

definition ARES_ENOTFOUND :: int where
  "ARES_ENOTFOUND = 4"

text \<open>A fresh, initialized request for \<^verbatim>\<open>example.test:8080\<close>.\<close>

definition fresh_ex :: request where
  "fresh_ex =
     (new_request ''example.test:8080'' [] 0)
       \<lparr>host := ''example.test'', port := 8080, initialized := True\<rparr>"

text \<open>
  The request after \<^verbatim>\<open>Start\<close> on this platform, with both lookups in flight, and
  the completions the stub delivers after \<^verbatim>\<open>ares_cancel\<close>.
\<close>

definition started_ex :: request where
  "started_ex =
     fresh_ex
       \<lparr>fd_node_list := [node_ex 7 True], query_timeout_handle := Some 1,
        ares_backup_poll_alarm_handle := Some 2, on_resolve := True, refs := 4,
        pending_queries := 2,
        trace := [ares_gethostbyname ''example.test'' AF_INET6 2,
                  ares_gethostbyname ''example.test'' AF_INET 2,
                  NewGrpcPolledFdLocked 7, RegisterForOnReadableLocked 7,
                  RunAfter 1, RunAfter 2]\<rparr>"

definition ARES_ECANCELLED :: int where
  "ARES_ECANCELLED = 24"

definition cancelled_completions_ex :: "event list" where
  "cancelled_completions_ex =
     [EvHostbynameDone (True, True) ''AAAA'' ARES_ECANCELLED hostent_empty,
      EvHostbynameDone (True, True) ''A'' ARES_ECANCELLED hostent_empty,
      EvQueryTimeout]"

text \<open>
  The completions of the two lookups with addresses, and a request for the IP literal
  \<^verbatim>\<open>1.2.3.4:80\<close>.
\<close>

definition success_completions_ex :: "event list" where
  "success_completions_ex =
     [EvHostbynameDone (True, True) ''AAAA'' ARES_SUCCESS hostent_AAAA,
      EvHostbynameDone (True, True) ''A'' ARES_SUCCESS hostent_A]"

definition literal_ex :: request where
  "literal_ex =
     (new_request ''1.2.3.4:80'' [] 0)\<lparr>host := ''1.2.3.4'', port := 80, initialized := True\<rparr>"

text \<open>The two lookups complete with success and no address.\<close>

definition empty_completions_ex :: "event list" where
  "empty_completions_ex =
     [EvHostbynameDone (True, True) ''AAAA'' ARES_SUCCESS hostent_empty,
      EvHostbynameDone (True, True) ''A'' ARES_SUCCESS hostent_empty]"


text \<open>A name whose port part is a service name.\<close>

definition bad_port_name_ex :: string where
  "bad_port_name_ex = ''example.test:http''"

text \<open>
  The address of the literal \<^verbatim>\<open>1.2.3.4:80\<close>, and the request for it after \<^verbatim>\<open>Start\<close>:
  the closure with the address is with the event engine and no flag is set.
\<close>

definition literal_address_ex :: ResolvedAddress where
  "literal_address_ex = sockaddr_in AF_INET 0x5000 [CHR 0x01, CHR 0x02, CHR 0x03, CHR 0x04]"

definition literal_started_ex :: request where
  "literal_started_ex =
     literal_ex\<lparr>refs := 0, trace := [Run (HostnameResult (Value [literal_address_ex]))]\<rparr>"

text \<open>
  A TXT request for \<^verbatim>\<open>cfg.test\<close>, fresh and after \<^verbatim>\<open>Start\<close> with the search in
  flight.
\<close>

definition txt_fresh_ex :: request where
  "txt_fresh_ex = (new_request ''cfg.test'' [] 0)\<lparr>host := ''cfg.test'', initialized := True\<rparr>"

definition txt_started_ex :: request where
  "txt_started_ex =
     txt_fresh_ex
       \<lparr>fd_node_list := [node_ex 7 True], query_timeout_handle := Some 1,
        ares_backup_poll_alarm_handle := Some 2, on_resolve := True, refs := 4,
        config_name := ''_grpc_config.cfg.test'',
        trace := [ares_search ''_grpc_config.cfg.test'',
                  NewGrpcPolledFdLocked 7, RegisterForOnReadableLocked 7,
                  RunAfter 1, RunAfter 2]\<rparr>"

section \<open>Joining and parsing host and port\<close>

lemma digit_cases: "d < 10 \<Longrightarrow> d \<in> {0, 1, 2, 3, 4, 5, 6, 7, 8, 9::nat}"
  by auto

lemma digit_val_digit_char: "d < 10 \<Longrightarrow> digit_val (digit_char d) = Some d"
  using digit_cases [of d] by (auto simp: digit_val_def digit_char_def)

lemma digit_char_plain: "d < 10 \<Longrightarrow> digit_char d \<noteq> CHR '':''"
  using digit_cases [of d] by (auto simp: digit_char_def)

lemma atoi_acc_append:
  "atoi_acc (xs @ ys) n = (case atoi_acc xs n of None \<Rightarrow> None | Some k \<Rightarrow> atoi_acc ys k)"
  by (induction xs arbitrary: n) (simp_all split: option.splits)

lemma atoi_acc_decimal_nat: "atoi_acc (decimal_nat m) 0 = Some m"
proof (induction m rule: decimal_nat.induct)
  case (1 n)
  show ?case
  proof (cases "n < 10")
    case True
    then show ?thesis by (simp add: decimal_nat.simps [of n] digit_val_digit_char)
  next
    case False
    then have "atoi_acc (decimal_nat (n div 10)) 0 = Some (n div 10)" using 1 by simp
    then show ?thesis
      using False by (simp add: decimal_nat.simps [of n] atoi_acc_append digit_val_digit_char)
  qed
qed

lemma decimal_nat_plain: "CHR '':'' \<notin> set (decimal_nat m)"
proof (induction m rule: decimal_nat.induct)
  case (1 n)
  show ?case
  proof (cases "n < 10")
    case True
    then show ?thesis using digit_char_plain [of n] by (simp add: decimal_nat.simps [of n])
  next
    case False
    then show ?thesis
      using 1 digit_char_plain [of "n mod 10"] by (simp add: decimal_nat.simps [of n])
  qed
qed

lemma decimal_nat_nonempty: "decimal_nat m \<noteq> []"
  by (simp add: decimal_nat.simps [of m])

lemma decimal_int_plain: "CHR '':'' \<notin> set (decimal_int p)"
  by (simp add: decimal_int_def decimal_nat_plain)

lemma port_value_decimal_int:
  "port_value (decimal_int p) = (if 0 \<le> p \<and> p \<le> 65535 then Some (nat p) else None)"
proof (cases "p < 0")
  case True
  then show ?thesis by (simp add: port_value_def decimal_int_def digit_val_def)
next
  case False
  then show ?thesis
    by (auto simp: port_value_def decimal_int_def decimal_nat_nonempty atoi_acc_decimal_nat)
qed

lemma split_at_last_colon:
  assumes "CHR '':'' \<notin> set d"
  shows "port_part (h @ '':'' @ d) = d" and "host_part (h @ '':'' @ d) = h"
proof -
  have d: "\<And>x. x \<in> set (rev d) \<Longrightarrow> x \<noteq> CHR '':''" using assms by auto
  have "takeWhile (\<lambda>c. c \<noteq> CHR '':'') (rev d @ CHR '':'' # rev h) = rev d"
    using takeWhile_append2 [of "rev d" "\<lambda>c. c \<noteq> CHR '':''" "CHR '':'' # rev h"] d by simp
  moreover have "dropWhile (\<lambda>c. c \<noteq> CHR '':'') (rev d @ CHR '':'' # rev h) = CHR '':'' # rev h"
    using dropWhile_append2 [of "rev d" "\<lambda>c. c \<noteq> CHR '':''" "CHR '':'' # rev h"] d by simp
  ultimately show "port_part (h @ '':'' @ d) = d" and "host_part (h @ '':'' @ d) = h"
    by (simp_all add: port_part_def host_part_def)
qed

lemma JoinHostPort_parts:
  "port_part (JoinHostPort h p) = decimal_int p" "host_part (JoinHostPort h p) = h"
  "CHR '':'' \<in> set (JoinHostPort h p)"
  using split_at_last_colon [OF decimal_int_plain, of h p] by (simp_all add: JoinHostPort_def)

lemma grpc_parse_ipv4_hostport_Join:
  "grpc_parse_ipv4_hostport pf (JoinHostPort h p) =
     (case ipv4_literal pf h of
        None \<Rightarrow> None
      | Some b \<Rightarrow>
          if 0 \<le> p \<and> p \<le> 65535
          then Some (sockaddr_in AF_INET (htons (little_endian pf) (word_of_int p)) b)
          else None)"
  by (auto simp: grpc_parse_ipv4_hostport_def JoinHostPort_parts port_value_decimal_int
      split: option.splits)

lemma grpc_parse_ipv6_hostport_Join:
  "grpc_parse_ipv6_hostport pf (JoinHostPort h p) =
     (case ipv6_literal pf h of
        None \<Rightarrow> None
      | Some b \<Rightarrow>
          if 0 \<le> p \<and> p \<le> 65535
          then Some (sockaddr_in6 AF_INET6 (htons (little_endian pf) (word_of_int p)) b)
          else None)"
  by (auto simp: grpc_parse_ipv6_hostport_def JoinHostPort_parts port_value_decimal_int
      split: option.splits)

lemma literal_address_port:
  "literal_address pf s = Some a \<Longrightarrow> port_field a = network_port pf s"
  by (auto simp: literal_address_def network_port_def grpc_parse_ipv4_hostport_Join
      grpc_parse_ipv6_hostport_Join split: option.splits if_splits)

section \<open>Properties of the TXT reply\<close>

lemma memcmp_zero_iff:
  "n \<le> length b \<Longrightarrow> (memcmp a b n = Some 0) = (n \<le> length a \<and> take n a = take n b)"
  by (induction a b n rule: memcmp.induct) auto

lemma memcmp_None_iff:
  "n \<le> length b \<Longrightarrow> (memcmp a b n = None) = (length a < n \<and> a = take (length a) b)"
  by (induction a b n rule: memcmp.induct) auto

lemma g_prefix_len_12: "unat g_prefix_len = 12"
  by (simp add: g_prefix_len_def g_service_config_attribute_prefix_def)

lemma take_prefix_buf: "take 12 g_service_config_attribute_prefix = prefix_text"
  by (simp add: g_service_config_attribute_prefix_def prefix_text_def)

lemma NUL_notin_prefix: "NUL \<notin> set prefix_text"
  by (simp add: prefix_text_def NUL_def)

lemma memcmp_nul_terminated:
  assumes "nul_terminated r"
  shows "\<exists>c. memcmp (txt_ptr r) g_service_config_attribute_prefix 12 = Some c \<and>
             (c = 0 \<longleftrightarrow> take 12 (text_of r) = prefix_text)"
proof -
  let ?a = "txt_ptr r" and ?b = "g_service_config_attribute_prefix"
  let ?L = "unat (txt_length r)"
  have len: "length ?a = ?L + 1" and nul: "?a ! ?L = NUL"
    using assms by (simp_all add: nul_terminated_def)
  have lb: "12 \<le> length ?b" by (simp add: g_service_config_attribute_prefix_def)
  have a_split: "?a = text_of r @ [NUL]"
  proof -
    have "?a = take ?L ?a @ drop ?L ?a" by simp
    moreover have "drop ?L ?a = [?a ! ?L]"
      using len by (metis Cons_nth_drop_Suc Suc_eq_plus1 drop_all lessI order_refl)
    ultimately show ?thesis using nul by (simp add: text_of_def)
  qed
  have lt: "length (text_of r) = ?L" using len by (simp add: text_of_def)
  have lpt: "length prefix_text = 12" by (simp add: prefix_text_def)
  have notNone: "memcmp ?a ?b 12 \<noteq> None"
  proof
    assume "memcmp ?a ?b 12 = None"
    then have l: "length ?a < 12" and e: "?a = take (length ?a) ?b"
      using memcmp_None_iff [OF lb] by auto
    have "?a ! ?L = ?b ! ?L" using e l len
      by (metis lessI nth_take Suc_eq_plus1)
    moreover have "?L < 12" using l len by simp
    moreover have "?L < 12 \<Longrightarrow> ?b ! ?L \<in> set prefix_text"
    proof -
      assume "?L < 12"
      then have "prefix_text ! ?L \<in> set prefix_text" by (simp add: lpt)
      moreover have "prefix_text ! ?L = ?b ! ?L"
        using \<open>?L < 12\<close> take_prefix_buf by (metis nth_take)
      ultimately show ?thesis by simp
    qed
    ultimately show False using nul NUL_notin_prefix by auto
  qed
  then obtain c where c: "memcmp ?a ?b 12 = Some c" by auto
  have "(c = 0) = (take 12 (text_of r) = prefix_text)"
  proof
    assume "c = 0"
    then have ge: "12 \<le> length ?a" and tk: "take 12 ?a = prefix_text"
      using c memcmp_zero_iff [OF lb, of ?a] take_prefix_buf by auto
    have "?L \<noteq> 11"
    proof
      assume "?L = 11"
      then have "take 12 ?a = ?a" using len by simp
      then have "last prefix_text = NUL" using tk a_split by (metis last_snoc)
      then show False by (simp add: prefix_text_def NUL_def)
    qed
    then have "12 \<le> ?L" using ge len by simp
    then show "take 12 (text_of r) = prefix_text"
      using tk a_split lt by simp
  next
    assume t: "take 12 (text_of r) = prefix_text"
    have "length (take 12 (text_of r)) = 12" using t lpt by simp
    then have "12 \<le> ?L" using lt by simp
    then have "take 12 ?a = prefix_text \<and> 12 \<le> length ?a"
      using t a_split lt len by simp
    then have "memcmp ?a ?b 12 = Some 0"
      using memcmp_zero_iff [OF lb, of ?a] take_prefix_buf by simp
    then show "c = 0" using c by simp
  qed
  then show ?thesis using c by simp
qed

lemma find_service_config_selected:
  "find_service_config reply = Returns (r # rest) \<Longrightarrow>
     r \<in> set reply \<and> record_start r \<noteq> 0 \<and>
     memcmp (txt_ptr r) g_service_config_attribute_prefix (unat g_prefix_len) = Some 0"
  by (induction reply) (auto split: if_splits option.splits)

lemma find_service_config_eq:
  "\<forall>c\<in>set reply. nul_terminated c \<Longrightarrow>
     find_service_config reply = Returns (dropWhile (\<lambda>c. \<not> is_config_start c) reply)"
proof (induction reply)
  case Nil
  then show ?case by simp
next
  case (Cons r reply)
  then have nt: "nul_terminated r" by simp
  obtain c where c: "memcmp (txt_ptr r) g_service_config_attribute_prefix 12 = Some c"
    and c0: "c = 0 \<longleftrightarrow> take 12 (text_of r) = prefix_text"
    using memcmp_nul_terminated [OF nt] by blast
  have lpt: "length prefix_text = 12" by (simp add: prefix_text_def)
  show ?case using Cons c c0
    by (simp add: g_prefix_len_12 is_config_start_def lpt)
qed

lemma read_text:
  "nul_terminated r \<Longrightarrow> read_bytes (txt_ptr r) (unat (txt_length r)) = Some (text_of r)"
  by (simp add: nul_terminated_def read_bytes_def text_of_def)

lemma append_chunks_eq:
  "\<forall>c\<in>set rest. nul_terminated c \<Longrightarrow>
     append_chunks out rest =
       Returns (out @ concat (map text_of (takeWhile (\<lambda>c. record_start c = 0) rest)))"
  by (induction rest arbitrary: out) (simp_all add: read_text)

lemma start_record_bounds:
  assumes nt: "nul_terminated r"
    and m: "memcmp (txt_ptr r) g_service_config_attribute_prefix (unat g_prefix_len) = Some 0"
  shows "g_prefix_len \<le> txt_length r"
    and "unat (txt_length r - g_prefix_len) = unat (txt_length r) - 12"
    and "read_bytes (drop (unat g_prefix_len) (txt_ptr r)) (unat (txt_length r - g_prefix_len))
           = Some (drop 12 (text_of r))"
proof -
  obtain c where c: "memcmp (txt_ptr r) g_service_config_attribute_prefix 12 = Some c"
    and c0: "c = 0 \<longleftrightarrow> take 12 (text_of r) = prefix_text"
    using memcmp_nul_terminated [OF nt] by blast
  have "take 12 (text_of r) = prefix_text" using c c0 m by (simp add: g_prefix_len_12)
  then have "length (take 12 (text_of r)) = 12" by (simp add: prefix_text_def)
  then have ge: "12 \<le> unat (txt_length r)"
    using nt by (simp add: text_of_def nul_terminated_def)
  then show le: "g_prefix_len \<le> txt_length r"
    by (simp add: word_le_nat_alt g_prefix_len_12)
  then show sub: "unat (txt_length r - g_prefix_len) = unat (txt_length r) - 12"
    by (simp add: unat_sub g_prefix_len_12)
  have "drop 12 (text_of r) = take (unat (txt_length r) - 12) (drop 12 (txt_ptr r))"
    by (simp add: text_of_def drop_take)
  then show "read_bytes (drop (unat g_prefix_len) (txt_ptr r)) (unat (txt_length r - g_prefix_len))
           = Some (drop 12 (text_of r))"
    using nt ge by (simp add: sub g_prefix_len_12 read_bytes_def nul_terminated_def)
qed

lemma spec_txt_payload_dropWhile:
  "spec_txt_payload reply =
     (case dropWhile (\<lambda>c. \<not> is_config_start c) reply of
        [] \<Rightarrow> []
      | r # rest \<Rightarrow> drop (length prefix_text) (text_of r)
          @ concat (map text_of (takeWhile (\<lambda>c. record_start c = 0) rest)))"
  by (induction reply) simp_all

lemma service_config_json_out_eq:
  assumes "\<forall>c\<in>set reply. nul_terminated c"
  shows "service_config_json_out reply = Returns (spec_txt_payload reply)"
proof (cases "dropWhile (\<lambda>c. \<not> is_config_start c) reply")
  case Nil
  have "find_service_config reply = Returns []"
    using find_service_config_eq [OF assms] by (simp only: Nil)
  moreover have "spec_txt_payload reply = []"
    unfolding spec_txt_payload_dropWhile Nil by simp
  ultimately show ?thesis
    by (simp add: service_config_json_out_def)
next
  case (Cons r rest)
  then have f: "find_service_config reply = Returns (r # rest)"
    using find_service_config_eq [OF assms] by simp
  have sub: "set (r # rest) \<subseteq> set reply"
    using Cons set_dropWhileD by (metis subsetI)
  then have nt: "nul_terminated r" and ntr: "\<forall>c\<in>set rest. nul_terminated c"
    using assms by auto
  have m: "memcmp (txt_ptr r) g_service_config_attribute_prefix (unat g_prefix_len) = Some 0"
    using find_service_config_selected [OF f] by simp
  have lpt: "length prefix_text = 12" by (simp add: prefix_text_def)
  show ?thesis
    using f Cons start_record_bounds(3) [OF nt m] append_chunks_eq [OF ntr]
    by (simp add: service_config_json_out_def spec_txt_payload_dropWhile lpt)
qed

lemma reply_ex_nul: "\<forall>c\<in>set reply_ex. nul_terminated c"
  by (simp add: reply_ex_def nul_terminated_def)

lemma reply_ex_payload: "spec_txt_payload reply_ex = ''[{}]''"
  by (simp add: reply_ex_def is_config_start_def text_of_def prefix_text_def NUL_def)

lemma reply_ex_find: "find_service_config reply_ex = Returns (drop 1 reply_ex)"
  by (simp add: reply_ex_def g_prefix_len_12 g_service_config_attribute_prefix_def NUL_def
      eval_nat_numeral)

lemma spec_txt_payload_no_match:
  "\<forall>c\<in>set reply. \<not> is_config_start c \<Longrightarrow> spec_txt_payload reply = []"
  by (induction reply) simp_all

text \<open>
  Claim C10. The chunk the search loop selects (it starts a record and \<^verbatim>\<open>memcmp\<close> over
  the 12 prefix bytes answers 0) has a length of at least 12: \<^verbatim>\<open>length - g_prefix_len\<close>
  does not wrap around, and the bytes appended are the chunk's text after the prefix.
\<close>

theorem txt_start_record_has_prefix_length:
  assumes "\<forall>c\<in>set reply. nul_terminated c"
    and "find_service_config reply = Returns (r # rest)"
  shows "record_start r \<noteq> 0
       \<and> memcmp (txt_ptr r) g_service_config_attribute_prefix (unat g_prefix_len) = Some 0
       \<and> g_prefix_len \<le> txt_length r
       \<and> unat (txt_length r - g_prefix_len) + unat g_prefix_len = unat (txt_length r)
       \<and> read_bytes (drop (unat g_prefix_len) (txt_ptr r)) (unat (txt_length r - g_prefix_len))
           = Some (drop (unat g_prefix_len) (text_of r))"
proof -
  have sel: "r \<in> set reply" and rs: "record_start r \<noteq> 0"
    and m: "memcmp (txt_ptr r) g_service_config_attribute_prefix (unat g_prefix_len) = Some 0"
    using find_service_config_selected [OF assms(2)] by simp_all
  then have nt: "nul_terminated r" using assms(1) by simp
  have "unat g_prefix_len \<le> unat (txt_length r)"
    using start_record_bounds(1) [OF nt m] by (simp add: word_le_nat_alt)
  then show ?thesis
    using start_record_bounds [OF nt m] rs m by (simp add: g_prefix_len_12)
qed

theorem txt_start_record_has_prefix_length_witness:
  "list_all nul_terminated reply_ex \<and>
   find_service_config reply_ex = Returns (reply_ex ! 1 # drop 2 reply_ex) \<and>
   g_prefix_len \<le> txt_length (reply_ex ! 1) \<and>
   unat (txt_length (reply_ex ! 1) - g_prefix_len) = 2"
proof -
  have f: "find_service_config reply_ex = Returns (reply_ex ! 1 # drop 2 reply_ex)"
    using reply_ex_find by (simp add: reply_ex_def)
  have "unat (txt_length (reply_ex ! 1)) = 14" by (simp add: reply_ex_def)
  then show ?thesis
    using txt_start_record_has_prefix_length [OF reply_ex_nul f] reply_ex_nul f
    by (simp add: g_prefix_len_12 list_all_iff)
qed

section \<open>Properties of the socket-tracking loop\<close>

lemma PopFdNode_as_keeps:
  "wrapped_socket (polled_fd n) \<noteq> sock \<Longrightarrow>
     (n \<in> set (snd (PopFdNode_as sock ns))) = (n \<in> set ns)"
  by (induction ns) (auto split: prod.splits)

lemma PopFdNode_as_subset: "set (snd (PopFdNode_as sock ns)) \<subseteq> set ns"
  by (induction ns) (auto split: prod.splits)

lemma PopFdNode_as_found:
  "fst (PopFdNode_as sock ns) = Some m \<Longrightarrow> m \<in> set ns \<and> wrapped_socket (polled_fd m) = sock"
  by (induction ns) (auto split: prod.splits if_splits)

lemma Work_slot_old:
  assumes "slot_wanted bits i \<longrightarrow> wrapped_socket (polled_fd n) \<noteq> socks i"
  shows "(n \<in> set (fd_node_list (fst (Work_slot socks bits i st)))) = (n \<in> set (fd_node_list (fst st)))"
  using assms
  by (auto simp: Work_slot_def Let_def slot_wanted_def emit_def Ref_def PopFdNode_as_keeps
      split: option.splits)

lemma Work_slot_new:
  assumes "\<forall>m\<in>set (snd st). readable_registered m \<or> writable_registered m"
  shows "\<forall>m\<in>set (snd (Work_slot socks bits i st)). readable_registered m \<or> writable_registered m"
  using assms
  by (auto simp: Work_slot_def Let_def PushFdNode_def)

lemma Work_slot_trace:
  "\<exists>es. trace (fst (Work_slot socks bits i st)) = trace (fst st) @ es \<and> no_delete es"
  by (auto simp: Work_slot_def Let_def emit_def Ref_def no_delete_def split: option.splits)

lemma fold_Work_slot_old:
  assumes "\<forall>i\<in>set idx. slot_wanted bits i \<longrightarrow> wrapped_socket (polled_fd n) \<noteq> socks i"
  shows "(n \<in> set (fd_node_list (fst (fold (Work_slot socks bits) idx st))))
           = (n \<in> set (fd_node_list (fst st)))"
  using assms
proof (induction idx arbitrary: st)
  case Nil
  then show ?case by simp
next
  case (Cons i idx)
  then show ?case using Work_slot_old [of bits i n socks st] by simp
qed

lemma fold_Work_slot_new:
  assumes "\<forall>m\<in>set (snd st). readable_registered m \<or> writable_registered m"
  shows "\<forall>m\<in>set (snd (fold (Work_slot socks bits) idx st)).
           readable_registered m \<or> writable_registered m"
  using assms
proof (induction idx arbitrary: st)
  case Nil
  then show ?case by simp
next
  case (Cons i idx)
  show ?case using Cons.IH [OF Work_slot_new [OF Cons.prems]] by simp
qed

lemma no_delete_append: "no_delete es \<Longrightarrow> no_delete es' \<Longrightarrow> no_delete (es @ es')"
  by (simp add: no_delete_def)

lemma fold_Work_slot_trace:
  "\<exists>es. trace (fst (fold (Work_slot socks bits) idx st)) = trace (fst st) @ es \<and> no_delete es"
proof (induction idx arbitrary: st)
  case Nil
  then show ?case by (simp add: no_delete_def)
next
  case (Cons i idx)
  obtain es1 where e1: "trace (fst (Work_slot socks bits i st)) = trace (fst st) @ es1"
    and n1: "no_delete es1"
    using Work_slot_trace by blast
  obtain es2 where e2: "trace (fst (fold (Work_slot socks bits) idx (Work_slot socks bits i st)))
        = trace (fst (Work_slot socks bits i st)) @ es2" and n2: "no_delete es2"
    using Cons.IH by blast
  show ?case using e1 e2 no_delete_append [OF n1 n2] by auto
qed

lemma Work_remaining_eq:
  "Work_remaining ns acc =
     (rev (filter registered (map (shutdown_node OkStatus) ns)) @ fst acc,
      snd acc @ map DeleteFdNode (filter (\<lambda>m. \<not> registered m) (map (shutdown_node OkStatus) ns)))"
  by (induction ns arbitrary: acc) (simp_all add: Let_def registered_def PushFdNode_def)

lemma shutdown_node_flags [simp]:
  "readable_registered (shutdown_node st n) = readable_registered n"
  "writable_registered (shutdown_node st n) = writable_registered n"
  "already_shutdown (shutdown_node st n)"
  by (simp_all add: shutdown_node_def)

lemma wanted_sockets_iff:
  "(x \<in> set (wanted_sockets getsock)) =
     (\<exists>i < ARES_GETSOCK_MAXNUM. slot_wanted (snd getsock) i \<and> fst getsock i = x)"
  by (auto simp: wanted_sockets_def slot_wanted_def)

lemma Work_first_old:
  assumes "shutting_down s \<or> wrapped_socket (polled_fd n) \<notin> set (wanted_sockets getsock)"
  shows "(n \<in> set (fd_node_list (fst (Work_first getsock s)))) = (n \<in> set (fd_node_list s))"
proof (cases "shutting_down s")
  case True
  then show ?thesis by (simp add: Work_first_def)
next
  case False
  then have "wrapped_socket (polled_fd n) \<notin> set (wanted_sockets getsock)" using assms by simp
  then have "\<forall>i\<in>set [0..<ARES_GETSOCK_MAXNUM].
      slot_wanted (snd getsock) i \<longrightarrow> wrapped_socket (polled_fd n) \<noteq> fst getsock i"
    by (auto simp: wanted_sockets_iff)
  from fold_Work_slot_old [OF this] show ?thesis using False by (simp add: Work_first_def)
qed

lemma Work_first_new:
  "\<forall>m\<in>set (snd (Work_first getsock s)). registered m"
  using fold_Work_slot_new [of "(s, [])"] by (simp add: Work_first_def registered_def)

lemma Work_first_trace:
  "\<exists>es. trace (fst (Work_first getsock s)) = trace s @ es \<and> no_delete es"
  using fold_Work_slot_trace [of _ _ _ "(s, [])"] by (auto simp: Work_first_def no_delete_def)

lemma Work_list:
  "fd_node_list (Work getsock s) =
     rev (filter registered (map (shutdown_node OkStatus) (fd_node_list (fst (Work_first getsock s)))))
       @ snd (Work_first getsock s)"
  by (simp add: Work_def Let_def Work_remaining_eq)

lemma Work_effects:
  "\<exists>es. no_delete es \<and> effects_since s (Work getsock s) =
     es @ map DeleteFdNode (filter (\<lambda>m. \<not> registered m)
            (map (shutdown_node OkStatus) (fd_node_list (fst (Work_first getsock s)))))"
proof -
  obtain es where "trace (fst (Work_first getsock s)) = trace s @ es" and "no_delete es"
    using Work_first_trace by blast
  then show ?thesis
    by (auto simp: Work_def Let_def Work_remaining_eq effects_since_def)
qed

text \<open>
  Claim C3. After \<^verbatim>\<open>Work\<close>, a node that was in \<^verbatim>\<open>fd_node_list_\<close> and whose socket the stub
  does not name (or any node, when the request is shutting down) has been shut down
  with an ok status unless it was shut down already; it is deleted exactly when it has
  neither registration outstanding, and otherwise it is in the new list. The new list
  is the one built in this call: the nodes of the wanted sockets and the nodes kept.
\<close>

theorem Work_unwanted_nodes:
  assumes "n \<in> set (fd_node_list s)"
    and "shutting_down s \<or> wrapped_socket (polled_fd n) \<notin> set (wanted_sockets getsock)"
  shows "fd_node_list (Work getsock s) =
           rev (filter registered
                  (map (shutdown_node OkStatus) (fd_node_list (fst (Work_first getsock s)))))
             @ snd (Work_first getsock s)
       \<and> already_shutdown (shutdown_node OkStatus n)
       \<and> (\<not> already_shutdown n \<longrightarrow>
            shutdowns (polled_fd (shutdown_node OkStatus n)) = shutdowns (polled_fd n) @ [OkStatus])
       \<and> (already_shutdown n \<longrightarrow> shutdown_node OkStatus n = n)
       \<and> (if \<not> readable_registered n \<and> \<not> writable_registered n
          then DeleteFdNode (shutdown_node OkStatus n) \<in> set (effects_since s (Work getsock s))
             \<and> shutdown_node OkStatus n \<notin> set (fd_node_list (Work getsock s))
          else shutdown_node OkStatus n \<in> set (fd_node_list (Work getsock s))
             \<and> DeleteFdNode (shutdown_node OkStatus n) \<notin> set (effects_since s (Work getsock s)))"
proof -
  let ?n' = "shutdown_node OkStatus n"
  let ?old = "fd_node_list (fst (Work_first getsock s))"
  have mem: "n \<in> set ?old" using Work_first_old [OF assms(2)] assms(1) by simp
  then have mem': "?n' \<in> set (map (shutdown_node OkStatus) ?old)" by simp
  obtain es where nd: "no_delete es" and eff: "effects_since s (Work getsock s) =
     es @ map DeleteFdNode (filter (\<lambda>m. \<not> registered m) (map (shutdown_node OkStatus) ?old))"
    using Work_effects by blast
  have k: "registered ?n' = (readable_registered n \<or> writable_registered n)"
    by (simp add: registered_def)
  have shut: "already_shutdown ?n'
       \<and> (\<not> already_shutdown n \<longrightarrow>
            shutdowns (polled_fd ?n') = shutdowns (polled_fd n) @ [OkStatus])
       \<and> (already_shutdown n \<longrightarrow> ?n' = n)"
    by (simp add: shutdown_node_def ShutdownLocked_def)
  show ?thesis
  proof (cases "readable_registered n \<or> writable_registered n")
    case True
    then have "registered ?n'" using k by simp
    then have "?n' \<in> set (fd_node_list (Work getsock s))"
      using mem' by (simp add: Work_list)
    moreover have "DeleteFdNode ?n' \<notin> set (effects_since s (Work getsock s))"
      using nd \<open>registered ?n'\<close> by (auto simp: eff no_delete_def)
    ultimately show ?thesis using True shut Work_list [of getsock s] by simp
  next
    case False
    then have nk: "\<not> registered ?n'" using k by simp
    then have "DeleteFdNode ?n' \<in> set (effects_since s (Work getsock s))"
      using mem' by (auto simp: eff)
    moreover have "?n' \<notin> set (fd_node_list (Work getsock s))"
      using nk Work_first_new [of getsock s] by (auto simp: Work_list)
    ultimately show ?thesis using False shut Work_list [of getsock s] by simp
  qed
qed

lemma wanted_sockets_ex: "wanted_sockets getsock_ex = [7]"
  by (simp add: wanted_sockets_def getsock_ex_def ARES_GETSOCK_MAXNUM_def
      ARES_GETSOCK_READABLE_def ARES_GETSOCK_WRITABLE_def upt_rec [of _ "numeral _"]
      upt_rec [of _ "Suc _"])

theorem Work_unwanted_nodes_witness:
  "shutdown_node OkStatus (node_ex 5 True) \<in> set (fd_node_list (Work getsock_ex request_ex))
   \<and> DeleteFdNode (shutdown_node OkStatus (node_ex 6 False))
       \<in> set (effects_since request_ex (Work getsock_ex request_ex))
   \<and> shutdown_node OkStatus (node_ex 6 False) \<notin> set (fd_node_list (Work getsock_ex request_ex))
   \<and> shutdowns (polled_fd (shutdown_node OkStatus (node_ex 5 True))) = [OkStatus]"
proof -
  have m5: "node_ex 5 True \<in> set (fd_node_list request_ex)"
    and m6: "node_ex 6 False \<in> set (fd_node_list request_ex)"
    by (simp_all add: request_ex_def)
  have w5: "shutting_down request_ex
      \<or> wrapped_socket (polled_fd (node_ex 5 True)) \<notin> set (wanted_sockets getsock_ex)"
    and w6: "shutting_down request_ex
      \<or> wrapped_socket (polled_fd (node_ex 6 False)) \<notin> set (wanted_sockets getsock_ex)"
    by (simp_all add: wanted_sockets_ex node_ex_def new_FdNode_def)
  have f5: "readable_registered (node_ex 5 True)" "\<not> already_shutdown (node_ex 5 True)"
    and f6: "\<not> readable_registered (node_ex 6 False)" "\<not> writable_registered (node_ex 6 False)"
    by (simp_all add: node_ex_def new_FdNode_def)
  have s5: "shutdowns (polled_fd (node_ex 5 True)) = []"
    by (simp add: node_ex_def new_FdNode_def)
  show ?thesis
    using Work_unwanted_nodes [OF m5 w5, THEN conjunct2]
      Work_unwanted_nodes [OF m6 w6, THEN conjunct2] f5 f6 s5 by simp
qed

section \<open>How the trace grows\<close>

lemma follows_refl: "follows P s s"
  by (simp add: follows_def)

lemma follows_trans: "follows P s t \<Longrightarrow> follows P t u \<Longrightarrow> follows P s u"
  by (auto simp: follows_def)

lemma follows_weaken: "follows P s t \<Longrightarrow> (\<And>e. P e \<Longrightarrow> Q e) \<Longrightarrow> follows Q s t"
  by (auto simp: follows_def list_all_iff)

lemma follows_emit: "P e \<Longrightarrow> follows P s (emit e s)"
  by (simp add: follows_def emit_def)

lemma follows_Ref: "follows P s (Ref s)"
  by (simp add: follows_def Ref_def)

lemma follows_Unref: "follows P s (Unref s)"
  by (simp add: follows_def Unref_def)

lemma follows_CancelTimers: "follows internal s (CancelTimers a s)"
  by (auto simp: follows_def CancelTimers_def emit_def Unref_def Let_def internal_def
      split: option.splits)

lemma follows_StartTimers: "follows internal s (StartTimers h s)"
  by (simp add: follows_def StartTimers_def emit_def Ref_def Let_def internal_def)

lemma follows_ShutdownPollerHandlesLocked: "follows P s (ShutdownPollerHandlesLocked st s)"
  by (simp add: follows_def ShutdownPollerHandlesLocked_def)

lemma follows_Cancel: "follows internal s (snd (Cancel a s))"
proof (cases "shutting_down s")
  case True
  then show ?thesis by (simp add: Cancel_def follows_refl)
next
  case False
  let ?s1 = "s\<lparr>shutting_down := True, cancelled := True\<rparr>"
  have "follows internal s ?s1" by (simp add: follows_def)
  then have "follows internal s (CancelTimers a ?s1)"
    using follows_CancelTimers follows_trans by blast
  then show ?thesis
    using False follows_ShutdownPollerHandlesLocked follows_trans
    by (simp add: Cancel_def)
qed

lemma follows_OnQueryTimeout: "follows internal s (OnQueryTimeout s)"
  by (simp add: follows_def OnQueryTimeout_def Let_def Unref_def ShutdownPollerHandlesLocked_def)

lemma Work_slot_follows:
  "follows internal (fst st) (fst (Work_slot socks bits i st))"
  by (auto simp: Work_slot_def Let_def emit_def Ref_def follows_def internal_def
      split: option.splits)

lemma fold_Work_slot_follows:
  "follows internal (fst st) (fst (fold (Work_slot socks bits) idx st))"
proof (induction idx arbitrary: st)
  case Nil
  then show ?case by (simp add: follows_refl)
next
  case (Cons i idx)
  show ?case using Work_slot_follows [of st socks bits i] Cons.IH follows_trans by simp
qed

lemma Work_remaining_deletes: "list_all internal (snd acc) \<Longrightarrow>
  list_all internal (snd (Work_remaining ns acc))"
  by (induction ns arbitrary: acc) (simp_all add: Let_def internal_def)

lemma follows_Work: "follows internal s (Work g s)"
proof -
  have 1: "follows internal s (fst (Work_first g s))"
    using fold_Work_slot_follows [of "(s, [])"] by (simp add: Work_first_def follows_refl)
  have "list_all internal (snd (Work_remaining (fd_node_list (fst (Work_first g s)))
          (snd (Work_first g s), [])))"
    by (rule Work_remaining_deletes) simp
  then have "follows internal (fst (Work_first g s)) (Work g s)"
    by (auto simp: Work_def Let_def follows_def)
  with 1 show ?thesis using follows_trans by blast
qed

lemma follows_Sort:
  "SortResolvedAddresses pf s = Returns s' \<Longrightarrow> follows P s s'"
  by (auto simp: SortResolvedAddresses_def Let_def follows_def split: if_splits)

section \<open>Cancellation\<close>

lemma posted_append: "posted (xs @ ys) = posted xs @ posted ys"
  by (induction xs rule: posted.induct) simp_all

lemma posted_internal: "list_all internal es \<Longrightarrow> posted es = []"
  by (induction es rule: posted.induct) (simp_all add: internal_def)

lemma follows_internal_posted:
  "follows internal s s' \<Longrightarrow> posted (trace s') = posted (trace s)"
  by (auto simp: follows_def posted_append posted_internal)

lemma follows_accumulate: "follows P s (accumulate r s)"
  by (cases r) (simp_all add: follows_def)

lemma accumulate_fields [simp]:
  "pending_queries (accumulate r s) = pending_queries s"
  "cancelled (accumulate r s) = cancelled s"
  "shutting_down (accumulate r s) = shutting_down s"
  "port (accumulate r s) = port s"
  "trace (accumulate r s) = trace s"
  by (cases r; simp)+

lemma Hostname_OnResolve_cancelled:
  assumes "cancelled s" and "Hostname_OnResolve pf a r s = Returns s'"
  shows "follows internal s s'"
proof -
  let ?s2 = "accumulate r (s\<lparr>pending_queries := pending_queries s - 1\<rparr>)"
  have "follows internal s (s\<lparr>pending_queries := pending_queries s - 1\<rparr>)"
    by (simp add: follows_def)
  then have f2: "follows internal s ?s2"
    using follows_accumulate follows_trans by blast
  have "s' = ?s2 \<or> s' = Unref ?s2"
    using assms
    by (auto simp: Hostname_OnResolve_def Hostname_complete_def Let_def split: if_splits)
  then show ?thesis using f2 follows_Unref follows_trans by blast
qed

lemma SRV_OnResolve_cancelled: "cancelled s \<Longrightarrow> follows internal s (SRV_OnResolve a r s)"
  by (simp add: SRV_OnResolve_def follows_Unref)

lemma TXT_OnResolve_cancelled: "cancelled s \<Longrightarrow> follows internal s (TXT_OnResolve a r s)"
  by (simp add: TXT_OnResolve_def follows_Unref)

lemma OnHostbynameDoneLocked_cases:
  assumes "OnHostbynameDoneLocked pf a q st he s = Returns s'"
  obtains r where "Hostname_OnResolve pf a r s = Returns s'"
    and "\<And>addrs. r = Value addrs \<Longrightarrow> st = ARES_SUCCESS \<and>
           hostent_addresses (htons (little_endian pf) (word_of_int (port s)))
             (h_addrtype he) (h_addr_list he) = Returns addrs"
  using assms
  by (auto simp: OnHostbynameDoneLocked_def split: if_splits outcome.splits)

lemma OnHostbynameDoneLocked_cancelled:
  assumes "cancelled s" and "OnHostbynameDoneLocked pf a q st he s = Returns s'"
  shows "follows internal s s'"
  using assms(2)
proof (rule OnHostbynameDoneLocked_cases)
  fix r assume "Hostname_OnResolve pf a r s = Returns s'"
  then show ?thesis using Hostname_OnResolve_cancelled [OF assms(1)] by blast
qed

lemma OnSRVQueryDoneLocked_cancelled:
  "cancelled s \<Longrightarrow> follows internal s (OnSRVQueryDoneLocked pf a st p s)"
  by (simp add: OnSRVQueryDoneLocked_def Let_def SRV_OnResolve_cancelled)

lemma OnTXTDoneLocked_cases:
  assumes "OnTXTDoneLocked pf a st p s = Returns s'"
  obtains r where "s' = TXT_OnResolve a r s"
  using assms by (auto simp: OnTXTDoneLocked_def Let_def split: if_splits outcome.splits)

lemma OnTXTDoneLocked_cancelled:
  "cancelled s \<Longrightarrow> OnTXTDoneLocked pf a st p s = Returns s' \<Longrightarrow> follows internal s s'"
  by (auto elim!: OnTXTDoneLocked_cases simp: TXT_OnResolve_cancelled)

lemma step_cancelled:
  assumes "cancelled s" and "step pf e s = Returns s'"
  shows "follows internal s s'"
proof (cases e)
  case (EvCancel a)
  then show ?thesis using assms follows_Cancel [of s a] by simp
next
  case (EvHostbynameDone a q st he)
  then show ?thesis
    using assms OnHostbynameDoneLocked_cancelled [of s pf a q st he s'] by simp
next
  case (EvSRVQueryDone a st p)
  then show ?thesis
    using assms OnSRVQueryDoneLocked_cancelled [of s pf a st p] by simp
next
  case (EvTXTDone a st p)
  then show ?thesis
    using assms OnTXTDoneLocked_cancelled [of s pf a st p s'] by simp
next
  case EvQueryTimeout
  then show ?thesis using assms follows_OnQueryTimeout [of s] by simp
next
  case (EvWork g)
  then show ?thesis using assms follows_Work [of s g] by simp
qed

lemma run_cancelled:
  "cancelled s \<Longrightarrow> run pf evs s = Returns s' \<Longrightarrow> follows internal s s'"
proof (induction evs arbitrary: s)
  case Nil
  then show ?case by (simp add: follows_refl)
next
  case (Cons e evs)
  then obtain t where t: "step pf e s = Returns t" and r: "run pf evs t = Returns s'"
    by (auto split: outcome.splits)
  have ft: "follows internal s t" using step_cancelled [OF Cons.prems(1) t] .
  then have "cancelled t" using Cons.prems(1) by (simp add: follows_def)
  from Cons.IH [OF this r] ft show ?case using follows_trans by blast
qed

lemma Cancel_fst: "fst (Cancel a s) = (\<not> shutting_down s)"
  by (simp add: Cancel_def)

lemma Cancel_flags:
  "shutting_down (snd (Cancel a s))" "\<not> shutting_down s \<Longrightarrow> cancelled (snd (Cancel a s))"
  using follows_CancelTimers [of "s\<lparr>shutting_down := True, cancelled := True\<rparr>" a]
  by (auto simp: Cancel_def ShutdownPollerHandlesLocked_def follows_def)

lemma SRV_OnResolve_shuts:
  "\<not> cancelled s \<Longrightarrow> shutting_down (SRV_OnResolve a r s)"
  using follows_CancelTimers [of "s\<lparr>shutting_down := True\<rparr>" a]
  by (simp add: SRV_OnResolve_def Let_def Unref_def emit_def follows_def)

lemma TXT_OnResolve_shuts:
  "\<not> cancelled s \<Longrightarrow> shutting_down (TXT_OnResolve a r s)"
  using follows_CancelTimers [of "s\<lparr>shutting_down := True\<rparr>" a]
  by (simp add: TXT_OnResolve_def Let_def Unref_def emit_def follows_def)

lemma Hostname_complete_shuts:
  assumes "\<not> cancelled s" "Hostname_complete pf a s = Returns s'"
  shows "shutting_down s'"
proof -
  let ?s3 = "CancelTimers a (s\<lparr>shutting_down := True\<rparr>)"
  have s3: "shutting_down ?s3"
    using follows_CancelTimers [of "s\<lparr>shutting_down := True\<rparr>" a] by (simp add: follows_def)
  have "(\<exists>s4. SortResolvedAddresses pf ?s3 = Returns s4 \<and>
           s' = Unref (emit (Run (HostnameResult (Value (result s4)))) (s4\<lparr>on_resolve := False\<rparr>)))
        \<or> s' = Unref (emit (Run (HostnameResult (Error (error ?s3)))) (?s3\<lparr>on_resolve := False\<rparr>))"
    using assms
    by (auto simp: Hostname_complete_def Let_def split: if_splits outcome.splits)
  then show ?thesis
    using s3 follows_Sort [of pf ?s3 _ internal]
    by (auto simp: Unref_def emit_def follows_def)
qed

lemma Hostname_OnResolve_shuts:
  assumes "\<not> cancelled s" "pending_queries s = 1" "Hostname_OnResolve pf a r s = Returns s'"
  shows "shutting_down s'"
proof -
  let ?s2 = "accumulate r (s\<lparr>pending_queries := pending_queries s - 1\<rparr>)"
  have "Hostname_complete pf a ?s2 = Returns s'"
    using assms(2,3) by (simp add: Hostname_OnResolve_def Let_def)
  moreover have "\<not> cancelled ?s2" using assms(1) by simp
  ultimately show ?thesis using Hostname_complete_shuts by blast
qed

text \<open>
  \<^verbatim>\<open>Cancel\<close> answers true exactly when \<^verbatim>\<open>shutting_down_\<close> was false, and sets it: a
  second \<^verbatim>\<open>Cancel\<close>, a \<^verbatim>\<open>Cancel\<close> after the deadline fired and a \<^verbatim>\<open>Cancel\<close> after a
  completion answer false. \<^verbatim>\<open>Cancel\<close> posts nothing, and after it has answered true,
  whatever completions, timeouts, further cancels and reconciliations follow, the
  request stays cancelled and none of them posts a closure for the user callback.
\<close>

lemma Cancel_first_transition_then_silent:
  "fst (Cancel a s) = (\<not> shutting_down s)
   \<and> shutting_down (snd (Cancel a s))
   \<and> \<not> fst (Cancel b (snd (Cancel a s)))
   \<and> \<not> fst (Cancel a (OnQueryTimeout s))
   \<and> (\<not> cancelled s \<longrightarrow> \<not> fst (Cancel a (SRV_OnResolve b srv s)))
   \<and> (\<not> cancelled s \<longrightarrow> \<not> fst (Cancel a (TXT_OnResolve b txt s)))
   \<and> (\<not> cancelled s \<and> pending_queries s = 1 \<and> Hostname_OnResolve pf b hst s = Returns t
        \<longrightarrow> \<not> fst (Cancel a t))
   \<and> posted (trace (snd (Cancel a s))) = posted (trace s)
   \<and> (fst (Cancel a s) \<and> run pf evs (snd (Cancel a s)) = Returns s'
        \<longrightarrow> cancelled s' \<and> posted (trace s') = posted (trace (snd (Cancel a s))))"
proof -
  have "shutting_down (OnQueryTimeout s)"
    by (simp add: OnQueryTimeout_def Let_def Unref_def ShutdownPollerHandlesLocked_def)
  moreover have "fst (Cancel a s) \<and> run pf evs (snd (Cancel a s)) = Returns s'
        \<longrightarrow> cancelled s' \<and> posted (trace s') = posted (trace (snd (Cancel a s)))"
  proof (intro impI, elim conjE)
    assume c: "fst (Cancel a s)" and r: "run pf evs (snd (Cancel a s)) = Returns s'"
    have cs: "cancelled (snd (Cancel a s))" using c Cancel_flags(2) by (simp add: Cancel_fst)
    have f: "follows internal (snd (Cancel a s)) s'" using run_cancelled [OF cs r] .
    then show "cancelled s' \<and> posted (trace s') = posted (trace (snd (Cancel a s)))"
      using cs follows_internal_posted by (simp add: follows_def)
  qed
  moreover have "\<not> cancelled s \<and> pending_queries s = 1
        \<and> Hostname_OnResolve pf b hst s = Returns t \<longrightarrow> \<not> fst (Cancel a t)"
    using Hostname_OnResolve_shuts [of s pf b hst t] by (simp add: Cancel_fst)
  ultimately show ?thesis
    using Cancel_flags(1) SRV_OnResolve_shuts TXT_OnResolve_shuts
      follows_internal_posted [OF follows_Cancel]
    by (simp add: Cancel_fst)
qed

lemma started_ex_cancel:
  "Cancel (True, True) started_ex =
     (True, started_ex
        \<lparr>fd_node_list := [shutdown_node (StatusCreate kCancelled ''Cancel'') (node_ex 7 True)],
         query_timeout_handle := None, ares_backup_poll_alarm_handle := None,
         shutting_down := True, cancelled := True, refs := 2,
         trace := trace started_ex @ [EngineCancel 1, EngineCancel 2]\<rparr>)"
  by (simp add: Cancel_def CancelTimers_def ShutdownPollerHandlesLocked_def started_ex_def
      fresh_ex_def new_request_def emit_def Unref_def)

lemma started_ex_run:
  "is_Returns (run platform_ex cancelled_completions_ex (snd (Cancel (True, True) started_ex)))"
  unfolding started_ex_cancel
  by (simp add: cancelled_completions_ex_def OnHostbynameDoneLocked_def
      Hostname_OnResolve_def Hostname_complete_def ARES_ECANCELLED_def ARES_SUCCESS_def
      started_ex_def fresh_ex_def new_request_def)

lemma started_ex_flags:
  "\<not> shutting_down started_ex" "posted (trace started_ex) = []"
  by (simp_all add: started_ex_def fresh_ex_def new_request_def)

lemma Cancel_first_transition_then_silent_ex:
  "fst (Cancel (True, True) started_ex)
   \<and> \<not> fst (Cancel (False, False) (snd (Cancel (True, True) started_ex)))
   \<and> is_Returns (run platform_ex cancelled_completions_ex (snd (Cancel (True, True) started_ex)))
   \<and> cancelled (returned
        (run platform_ex cancelled_completions_ex (snd (Cancel (True, True) started_ex))))
   \<and> posted (trace (returned
        (run platform_ex cancelled_completions_ex (snd (Cancel (True, True) started_ex))))) = []"
proof -
  let ?c = "snd (Cancel (True, True) started_ex)"
  let ?r = "run platform_ex cancelled_completions_ex ?c"
  have r: "?r = Returns (returned ?r)" using started_ex_run by simp
  show ?thesis
    using Cancel_first_transition_then_silent
      [where a = "(True, True)" and s = started_ex and b = "(False, False)"
         and pf = platform_ex and evs = cancelled_completions_ex and s' = "returned ?r"]
      r started_ex_run started_ex_flags
    by simp
qed

text \<open>What a completion of a request that is not cancelled posts.\<close>

lemma SRV_OnResolve_posted:
  "\<not> cancelled s \<Longrightarrow> posted (effects_since s (SRV_OnResolve a r s)) = [SRVResult r]"
proof -
  assume nc: "\<not> cancelled s"
  let ?s1 = "CancelTimers a (s\<lparr>shutting_down := True\<rparr>)"
  have "follows internal (s\<lparr>shutting_down := True\<rparr>) ?s1" by (rule follows_CancelTimers)
  then obtain es where "trace ?s1 = trace s @ es" and "list_all internal es"
    by (auto simp: follows_def)
  then show ?thesis
    using nc posted_internal [of es]
    by (simp add: SRV_OnResolve_def Let_def effects_since_def Unref_def emit_def posted_append)
qed

lemma TXT_OnResolve_posted:
  "\<not> cancelled s \<Longrightarrow> posted (effects_since s (TXT_OnResolve a r s)) = [TXTResult r]"
proof -
  assume nc: "\<not> cancelled s"
  let ?s1 = "CancelTimers a (s\<lparr>shutting_down := True\<rparr>)"
  have "follows internal (s\<lparr>shutting_down := True\<rparr>) ?s1" by (rule follows_CancelTimers)
  then obtain es where "trace ?s1 = trace s @ es" and "list_all internal es"
    by (auto simp: follows_def)
  then show ?thesis
    using nc posted_internal [of es]
    by (simp add: TXT_OnResolve_def Let_def effects_since_def Unref_def emit_def posted_append)
qed

section \<open>SRV and TXT requests for localhost\<close>

lemma GRPC_ERROR_CREATE_fields [simp]:
  "code (GRPC_ERROR_CREATE pf msg) = error_create_code pf"
  "message (GRPC_ERROR_CREATE pf msg) = msg"
  "code (grpc_error_set_str st v) = code st"
  by (simp_all add: GRPC_ERROR_CREATE_def StatusCreate_def grpc_error_set_str_def)

text \<open>
  An SRV or TXT request whose host is \<^verbatim>\<open>localhost\<close> in any letter case: \<^verbatim>\<open>Start\<close> posts
  the user callback with the "Skip querying" error that \<^verbatim>\<open>GRPC_ERROR_CREATE\<close> builds,
  gives up the Start reference and returns; nothing else of the request changes: no
  stub query, no socket registered, no timer armed.
\<close>

lemma SRV_TXT_Start_localhost:
  assumes "initialized s" and "gpr_stricmp (host s) ''localhost'' = 0"
  shows "SRV_Start pf sc s =
           Returns (s\<lparr>refs := refs s - 1,
                      trace := trace s @ [Run (SRVResult (Error (GRPC_ERROR_CREATE pf
                        ''Skip querying for SRV records for localhost target'')))]\<rparr>)"
    and "TXT_Start pf sc s =
           Returns (s\<lparr>refs := refs s - 1,
                      trace := trace s @ [Run (TXTResult (Error (GRPC_ERROR_CREATE pf
                        ''Skip querying for TXT records localhost target'')))]\<rparr>)"
  using assms
  by (simp_all add: SRV_Start_def TXT_Start_def Ref_def Unref_def emit_def)

lemma LocalHost_stricmp: "gpr_stricmp ''LocalHost'' ''localhost'' = 0"
  by (simp add: gpr_stricmp_def ascii_tolower_def)

section \<open>Start of a hostname request\<close>

lemma ResolveAsIPLiteralLocked_fst:
  "fst (ResolveAsIPLiteralLocked pf s) = is_ip_literal pf s"
  by (auto simp: ResolveAsIPLiteralLocked_def is_ip_literal_def Let_def split: option.splits)

lemma ResolveAsIPLiteralLocked_not:
  "\<not> is_ip_literal pf s \<Longrightarrow> ResolveAsIPLiteralLocked pf s = (False, s)"
  by (auto simp: ResolveAsIPLiteralLocked_def is_ip_literal_def Let_def split: option.splits)

lemma is_ip_literal_cong:
  "host t = host s \<Longrightarrow> port t = port s \<Longrightarrow> is_ip_literal pf t = is_ip_literal pf s"
  by (simp add: is_ip_literal_def)

lemma Hostname_complete_follows:
  assumes "Hostname_complete pf a s = Returns s'"
  shows "follows (\<lambda>e. \<not> is_query e) s s'"
proof (cases "cancelled s")
  case True
  then show ?thesis using assms follows_Unref by (auto simp: Hostname_complete_def)
next
  case False
  let ?s3 = "CancelTimers a (s\<lparr>shutting_down := True\<rparr>)"
  have "follows internal s (s\<lparr>shutting_down := True\<rparr>)" by (simp add: follows_def)
  then have "follows internal s ?s3" using follows_CancelTimers follows_trans by blast
  then have f3: "follows (\<lambda>e. \<not> is_query e) s ?s3"
    by (rule follows_weaken) (simp add: internal_def)
  have "(\<exists>s4. SortResolvedAddresses pf ?s3 = Returns s4 \<and>
           s' = Unref (emit (Run (HostnameResult (Value (result s4)))) (s4\<lparr>on_resolve := False\<rparr>)))
        \<or> s' = Unref (emit (Run (HostnameResult (Error (error ?s3)))) (?s3\<lparr>on_resolve := False\<rparr>))"
    using assms False
    by (auto simp: Hostname_complete_def Let_def split: if_splits outcome.splits)
  then show ?thesis
  proof
    assume "\<exists>s4. SortResolvedAddresses pf ?s3 = Returns s4 \<and>
           s' = Unref (emit (Run (HostnameResult (Value (result s4)))) (s4\<lparr>on_resolve := False\<rparr>))"
    then obtain s4 where s4: "SortResolvedAddresses pf ?s3 = Returns s4"
      and s': "s' = Unref (emit (Run (HostnameResult (Value (result s4)))) (s4\<lparr>on_resolve := False\<rparr>))"
      by blast
    have "follows (\<lambda>e. \<not> is_query e) ?s3 s4" using follows_Sort [OF s4] .
    moreover have "follows (\<lambda>e. \<not> is_query e) s4 s'"
      by (simp add: s' follows_def Unref_def emit_def)
    ultimately show ?thesis using f3 follows_trans by blast
  next
    assume "s' = Unref (emit (Run (HostnameResult (Error (error ?s3)))) (?s3\<lparr>on_resolve := False\<rparr>))"
    then have "follows (\<lambda>e. \<not> is_query e) ?s3 s'"
      by (simp add: follows_def Unref_def emit_def)
    then show ?thesis using f3 follows_trans by blast
  qed
qed

lemma Hostname_OnResolve_follows:
  assumes "Hostname_OnResolve pf a r s = Returns s'"
  shows "follows (\<lambda>e. \<not> is_query e) s s'"
proof -
  let ?s2 = "accumulate r (s\<lparr>pending_queries := pending_queries s - 1\<rparr>)"
  have "follows (\<lambda>e. \<not> is_query e) s (s\<lparr>pending_queries := pending_queries s - 1\<rparr>)"
    by (simp add: follows_def)
  then have f2: "follows (\<lambda>e. \<not> is_query e) s ?s2"
    using follows_accumulate follows_trans by blast
  have "s' = ?s2 \<or> Hostname_complete pf a ?s2 = Returns s'"
    using assms by (auto simp: Hostname_OnResolve_def Let_def split: if_splits)
  then show ?thesis using f2 Hostname_complete_follows follows_trans by blast
qed

lemma OnHostbynameDoneLocked_follows:
  assumes "OnHostbynameDoneLocked pf a q st he s = Returns s'"
  shows "follows (\<lambda>e. \<not> is_query e) s s'"
  using assms
proof (rule OnHostbynameDoneLocked_cases)
  fix r assume "Hostname_OnResolve pf a r s = Returns s'"
  then show ?thesis by (rule Hostname_OnResolve_follows)
qed

lemma call_ares_gethostbyname_trace:
  assumes "call_ares_gethostbyname pf a q fam inl s = Returns t"
  shows "\<exists>es. trace t = trace s @ ares_gethostbyname (host s) fam (pending_queries s) # es
           \<and> list_all (\<lambda>e. \<not> is_query e) es"
    and "host t = host s" and "port t = port s"
proof -
  let ?s1 = "emit (ares_gethostbyname (host s) fam (pending_queries s)) s"
  have "follows (\<lambda>e. \<not> is_query e) ?s1 t"
  proof (cases inl)
    case None
    then show ?thesis using assms by (simp add: call_ares_gethostbyname_def follows_refl)
  next
    case (Some c)
    then show ?thesis
      using assms OnHostbynameDoneLocked_follows [of pf a q "fst c" "snd c" ?s1 t]
      by (simp add: call_ares_gethostbyname_def)
  qed
  then show "\<exists>es. trace t = trace s @ ares_gethostbyname (host s) fam (pending_queries s) # es
           \<and> list_all (\<lambda>e. \<not> is_query e) es"
    and "host t = host s" and "port t = port s"
    by (auto simp: follows_def emit_def)
qed

lemma call_ares_gethostbyname_pending:
  "call_ares_gethostbyname pf a q fam None s = Returns t \<Longrightarrow> pending_queries t = pending_queries s"
  "call_ares_gethostbyname pf a q fam (Some c) s = Returns t \<Longrightarrow>
     pending_queries t = pending_queries s - 1"
   apply (simp add: call_ares_gethostbyname_def emit_def)
   apply force
  apply (auto simp: call_ares_gethostbyname_def emit_def OnHostbynameDoneLocked_def
      Hostname_OnResolve_def Hostname_complete_def Let_def SortResolvedAddresses_def
      CancelTimers_def Unref_def
      split: if_splits outcome.splits option.splits)
  done

lemma follows_Start_tail: "follows internal s (Start_tail sc s)"
proof -
  have "follows internal s (StartTimers (timer_handles sc) (Work (getsock_answer sc) s))"
    using follows_Work follows_StartTimers follows_trans by blast
  then show ?thesis
    using follows_Unref follows_trans follows_refl by (simp add: Start_tail_def)
qed

lemma Work_slot_pending:
  "pending_queries (fst (Work_slot socks bits i st)) = pending_queries (fst st)"
  by (simp add: Work_slot_def Let_def emit_def Ref_def split: option.splits)

lemma fold_Work_slot_pending:
  "pending_queries (fst (fold (Work_slot socks bits) idx st)) = pending_queries (fst st)"
  by (induction idx arbitrary: st) (simp_all add: Work_slot_pending)

lemma Work_pending: "pending_queries (Work g s) = pending_queries s"
  by (simp add: Work_def Work_first_def Let_def fold_Work_slot_pending)

lemma Start_tail_pending: "pending_queries (Start_tail sc s) = pending_queries s"
  by (simp add: Start_tail_def Unref_def StartTimers_def emit_def Ref_def Work_pending)

lemma Hostname_Start_nonliteral:
  assumes "initialized s" and "\<not> is_ip_literal pf s"
  shows "Hostname_Start pf sc s =
     (case (if IsIpv6LoopbackAvailable pf
            then call_ares_gethostbyname pf (cancel_answers sc) ''AAAA'' AF_INET6 (inline_AAAA sc)
                   ((Ref s)\<lparr>on_resolve := True, pending_queries := pending_queries s + 1 + 1\<rparr>)
            else Returns ((Ref s)\<lparr>on_resolve := True, pending_queries := pending_queries s + 1\<rparr>)) of
        Aborted f \<Rightarrow> Aborted f
      | Returns s3 \<Rightarrow>
          (case call_ares_gethostbyname pf (cancel_answers sc) ''A'' AF_INET (inline_A sc) s3 of
             Aborted f \<Rightarrow> Aborted f
           | Returns s4 \<Rightarrow> Returns (Start_tail sc s4)))"
proof -
  have "\<not> is_ip_literal pf ((Ref s)\<lparr>on_resolve := True\<rparr>)"
    using assms(2) by (simp add: is_ip_literal_def Ref_def)
  then have "ResolveAsIPLiteralLocked pf ((Ref s)\<lparr>on_resolve := True\<rparr>)
      = (False, (Ref s)\<lparr>on_resolve := True\<rparr>)"
    by (rule ResolveAsIPLiteralLocked_not)
  then show ?thesis
    using assms(1) unfolding Start_tail_def
    by (simp add: Hostname_Start_def Let_def Ref_def)
qed

lemma filter_query_tail:
  "list_all (\<lambda>e. \<not> is_query e) es \<Longrightarrow> filter is_query es = []"
  by (induction es) simp_all

lemma filter_query_internal:
  "list_all internal es \<Longrightarrow> filter is_query es = []"
  by (induction es) (simp_all add: internal_def)

lemma Start_tail_queries:
  "\<exists>es. trace (Start_tail sc s) = trace s @ es \<and> filter is_query es = []"
  using follows_Start_tail [of s sc] filter_query_internal by (auto simp: follows_def)

text \<open>
  Claim C4. \<^verbatim>\<open>Start\<close> of a hostname request that is not an IP literal: the stub sees
  an AAAA lookup exactly when IPv6 loopback is available, then an A lookup, and no other
  query; at the first of these calls \<^verbatim>\<open>pending_queries_\<close> already counts every lookup
  of this \<^verbatim>\<open>Start\<close> (2 with IPv6 loopback, 1 without), so a completion the stub delivers
  inline finds the other lookup counted. When the stub completes nothing inline,
  \<^verbatim>\<open>Start\<close> returns with that count.
\<close>

theorem Hostname_Start_counts_before_queries:
  assumes i: "initialized s" and p: "pending_queries s = 0" and l: "\<not> is_ip_literal pf s"
  shows "(Hostname_Start pf sc s = Returns s' \<longrightarrow>
            filter is_query (effects_since s s') =
              (if IsIpv6LoopbackAvailable pf
               then [ares_gethostbyname (host s) AF_INET6 2,
                     ares_gethostbyname (host s) AF_INET (if inline_AAAA sc = None then 2 else 1)]
               else [ares_gethostbyname (host s) AF_INET 1]))
       \<and> (inline_AAAA sc = None \<and> inline_A sc = None \<longrightarrow>
            is_Returns (Hostname_Start pf sc s) \<and>
            pending_queries (returned (Hostname_Start pf sc s))
              = (if IsIpv6LoopbackAvailable pf then 2 else 1))"
proof (intro conjI impI)
  assume r: "Hostname_Start pf sc s = Returns s'"
  let ?a = "cancel_answers sc"
  show "filter is_query (effects_since s s') =
              (if IsIpv6LoopbackAvailable pf
               then [ares_gethostbyname (host s) AF_INET6 2,
                     ares_gethostbyname (host s) AF_INET (if inline_AAAA sc = None then 2 else 1)]
               else [ares_gethostbyname (host s) AF_INET 1])"
  proof (cases "IsIpv6LoopbackAvailable pf")
    case True
    let ?s2 = "(Ref s)\<lparr>on_resolve := True, pending_queries := pending_queries s + 1 + 1\<rparr>"
    obtain s3 s4 where c1: "call_ares_gethostbyname pf ?a ''AAAA'' AF_INET6 (inline_AAAA sc) ?s2
          = Returns s3"
      and c2: "call_ares_gethostbyname pf ?a ''A'' AF_INET (inline_A sc) s3 = Returns s4"
      and s': "s' = Start_tail sc s4"
      using r True Hostname_Start_nonliteral [OF i l, of sc]
      by (auto split: outcome.splits)
    obtain es1 where t3: "trace s3 = trace ?s2 @ ares_gethostbyname (host ?s2) AF_INET6
          (pending_queries ?s2) # es1" and q1: "list_all (\<lambda>e. \<not> is_query e) es1"
      using call_ares_gethostbyname_trace(1) [OF c1] by blast
    have h3: "host s3 = host s"
      using call_ares_gethostbyname_trace(2) [OF c1] by (simp add: Ref_def)
    have p3: "pending_queries s3 = (if inline_AAAA sc = None then 2 else 1)"
    proof (cases "inline_AAAA sc")
      case None
      then show ?thesis using c1 call_ares_gethostbyname_pending(1) [of pf ?a _ _ ?s2 s3] p
        by simp
    next
      case (Some c)
      then show ?thesis using c1 call_ares_gethostbyname_pending(2) [of pf ?a _ _ c ?s2 s3] p
        by simp
    qed
    obtain es2 where t4: "trace s4 = trace s3 @ ares_gethostbyname (host s3) AF_INET
          (pending_queries s3) # es2" and q2: "list_all (\<lambda>e. \<not> is_query e) es2"
      using call_ares_gethostbyname_trace(1) [OF c2] by blast
    obtain es3 where t5: "trace s' = trace s4 @ es3" and q3: "filter is_query es3 = []"
      using Start_tail_queries [of sc s4] s' by blast
    have "effects_since s s' =
        ares_gethostbyname (host s) AF_INET6 2 # es1
          @ ares_gethostbyname (host s) AF_INET (if inline_AAAA sc = None then 2 else 1) # es2 @ es3"
      using t3 t4 t5 h3 p3 p by (simp add: effects_since_def Ref_def)
    then show ?thesis
      using True q3 filter_query_tail [OF q1] filter_query_tail [OF q2] by simp
  next
    case False
    let ?s2 = "(Ref s)\<lparr>on_resolve := True, pending_queries := pending_queries s + 1\<rparr>"
    obtain s4 where c2: "call_ares_gethostbyname pf ?a ''A'' AF_INET (inline_A sc) ?s2 = Returns s4"
      and s': "s' = Start_tail sc s4"
      using r False Hostname_Start_nonliteral [OF i l, of sc]
      by (auto split: outcome.splits)
    obtain es2 where t4: "trace s4 = trace ?s2 @ ares_gethostbyname (host ?s2) AF_INET
          (pending_queries ?s2) # es2" and q2: "list_all (\<lambda>e. \<not> is_query e) es2"
      using call_ares_gethostbyname_trace(1) [OF c2] by blast
    obtain es3 where t5: "trace s' = trace s4 @ es3" and q3: "filter is_query es3 = []"
      using Start_tail_queries [of sc s4] s' by blast
    have "effects_since s s' = ares_gethostbyname (host s) AF_INET 1 # es2 @ es3"
      using t4 t5 p by (simp add: effects_since_def Ref_def)
    then show ?thesis using False q3 filter_query_tail [OF q2] by simp
  qed
next
  assume n: "inline_AAAA sc = None \<and> inline_A sc = None"
  have e: "Hostname_Start pf sc s =
      Returns (Start_tail sc
        (if IsIpv6LoopbackAvailable pf
         then emit (ares_gethostbyname (host s) AF_INET 2)
                (emit (ares_gethostbyname (host s) AF_INET6 2)
                   ((Ref s)\<lparr>on_resolve := True, pending_queries := 2\<rparr>))
         else emit (ares_gethostbyname (host s) AF_INET 1)
                ((Ref s)\<lparr>on_resolve := True, pending_queries := 1\<rparr>)))"
    using n p Hostname_Start_nonliteral [OF i l, of sc]
    by (simp add: call_ares_gethostbyname_def emit_def Ref_def)
  show "is_Returns (Hostname_Start pf sc s)" by (simp add: e)
  show "pending_queries (returned (Hostname_Start pf sc s))
              = (if IsIpv6LoopbackAvailable pf then 2 else 1)"
    by (simp add: e Start_tail_pending emit_def)
qed

lemma fresh_ex_not_literal: "\<not> is_ip_literal platform_ex fresh_ex"
  by (simp add: is_ip_literal_def grpc_parse_ipv4_hostport_Join grpc_parse_ipv6_hostport_Join
      fresh_ex_def new_request_def platform_ex_def literal4_ex_def)

theorem Hostname_Start_counts_before_queries_witness:
  "is_Returns (Hostname_Start platform_ex script_ex fresh_ex)
   \<and> pending_queries (returned (Hostname_Start platform_ex script_ex fresh_ex)) = 2
   \<and> filter is_query
         (effects_since fresh_ex (returned (Hostname_Start platform_ex script_ex fresh_ex)))
       = [ares_gethostbyname ''example.test'' AF_INET6 2,
          ares_gethostbyname ''example.test'' AF_INET 2]"
proof -
  have i: "initialized fresh_ex" and p: "pending_queries fresh_ex = 0"
    by (simp_all add: fresh_ex_def new_request_def)
  have n: "inline_AAAA script_ex = None \<and> inline_A script_ex = None"
    and v6: "IsIpv6LoopbackAvailable platform_ex" and h: "host fresh_ex = ''example.test''"
    by (simp_all add: script_ex_def platform_ex_def fresh_ex_def)
  note t = Hostname_Start_counts_before_queries [OF i p fresh_ex_not_literal,
      where sc = script_ex and s' = "returned (Hostname_Start platform_ex script_ex fresh_ex)"]
  have r: "is_Returns (Hostname_Start platform_ex script_ex fresh_ex)"
    using t n by simp
  then have "Hostname_Start platform_ex script_ex fresh_ex
      = Returns (returned (Hostname_Start platform_ex script_ex fresh_ex))" by simp
  then show ?thesis using t n v6 h by simp
qed

section \<open>The port of the addresses delivered\<close>

lemma internal_carries: "internal e \<Longrightarrow> carries p e"
  by (cases "(p, e)" rule: carries.cases) (simp_all add: internal_def)

lemma follows_internal_carries: "follows internal s t \<Longrightarrow> follows (carries p) s t"
  using follows_weaken [of internal s t "carries p"] internal_carries by blast

lemma delivered_append: "delivered (xs @ ys) = delivered xs @ delivered ys"
  by (induction xs rule: delivered.induct) simp_all

lemma carries_delivered:
  "list_all (carries p) es \<Longrightarrow> list_all (ports_ok p) (delivered es)"
  by (induction es rule: delivered.induct) simp_all

lemma hostent_addresses_ports:
  "hostent_addresses p ty l = Returns addrs \<Longrightarrow> ports_ok p addrs"
  by (induction l arbitrary: addrs)
     (auto simp: ports_ok_def split: if_splits option.splits outcome.splits)

lemma ports_ok_append: "ports_ok p (xs @ ys) = (ports_ok p xs \<and> ports_ok p ys)"
  by (simp add: ports_ok_def)

lemma Sort_ports:
  assumes "SortResolvedAddresses pf s = Returns s'" and "ports_ok p (result s)"
  shows "ports_ok p (result s')"
proof -
  let ?srt = "address_sorting_rfc_6724_sort pf (zip (result s) [0..<length (result s)])"
  have b: "list_all (\<lambda>x. snd x < length (result s)) ?srt"
    and r: "result s' = map (\<lambda>x. result s ! snd x) ?srt"
    using assms(1) by (auto simp: SortResolvedAddresses_def Let_def split: if_splits)
  have "\<forall>x\<in>set ?srt. port_field (result s ! snd x) = p"
    using b assms(2) by (auto simp: list_all_iff ports_ok_def)
  then show ?thesis by (simp add: r ports_ok_def list_all_iff)
qed

lemma CancelTimers_result [simp]: "result (CancelTimers a s) = result s"
  by (simp add: CancelTimers_def Let_def emit_def Unref_def split: option.splits)

lemma StartTimers_result [simp]: "result (StartTimers h s) = result s"
  by (simp add: StartTimers_def Let_def emit_def Ref_def)

lemma Cancel_result [simp]: "result (snd (Cancel a s)) = result s"
  by (simp add: Cancel_def ShutdownPollerHandlesLocked_def)

lemma OnQueryTimeout_result [simp]: "result (OnQueryTimeout s) = result s"
  by (simp add: OnQueryTimeout_def Let_def Unref_def ShutdownPollerHandlesLocked_def)

lemma Work_slot_result:
  "result (fst (Work_slot socks bits i st)) = result (fst st)"
  by (simp add: Work_slot_def Let_def emit_def Ref_def split: option.splits)

lemma fold_Work_slot_result:
  "result (fst (fold (Work_slot socks bits) idx st)) = result (fst st)"
  by (induction idx arbitrary: st) (simp_all add: Work_slot_result)

lemma Work_result [simp]: "result (Work g s) = result s"
  by (simp add: Work_def Work_first_def Let_def fold_Work_slot_result)

lemma Start_tail_result [simp]: "result (Start_tail sc s) = result s"
  by (simp add: Start_tail_def Unref_def)

lemma SRV_OnResolve_result [simp]: "result (SRV_OnResolve a r s) = result s"
  by (simp add: SRV_OnResolve_def Let_def Unref_def emit_def)

lemma TXT_OnResolve_result [simp]: "result (TXT_OnResolve a r s) = result s"
  by (simp add: TXT_OnResolve_def Let_def Unref_def emit_def)

lemma Hostname_complete_carries:
  assumes "Hostname_complete pf a s = Returns s'" and "ports_ok p (result s)"
  shows "follows (carries p) s s' \<and> ports_ok p (result s')"
proof (cases "cancelled s")
  case True
  then have "s' = Unref s" using assms(1) by (simp add: Hostname_complete_def)
  then show ?thesis using assms(2) follows_Unref by (simp add: Unref_def)
next
  case False
  let ?s3 = "CancelTimers a (s\<lparr>shutting_down := True\<rparr>)"
  have "follows internal s (s\<lparr>shutting_down := True\<rparr>)" by (simp add: follows_def)
  then have "follows internal s ?s3" using follows_CancelTimers follows_trans by blast
  then have f3: "follows (carries p) s ?s3" by (rule follows_internal_carries)
  have r3: "ports_ok p (result ?s3)" using assms(2) by simp
  have "(\<exists>s4. SortResolvedAddresses pf ?s3 = Returns s4 \<and>
           s' = Unref (emit (Run (HostnameResult (Value (result s4)))) (s4\<lparr>on_resolve := False\<rparr>)))
        \<or> s' = Unref (emit (Run (HostnameResult (Error (error ?s3)))) (?s3\<lparr>on_resolve := False\<rparr>))"
    using assms(1) False
    by (auto simp: Hostname_complete_def Let_def split: if_splits outcome.splits)
  then show ?thesis
  proof
    assume "\<exists>s4. SortResolvedAddresses pf ?s3 = Returns s4 \<and>
           s' = Unref (emit (Run (HostnameResult (Value (result s4)))) (s4\<lparr>on_resolve := False\<rparr>))"
    then obtain s4 where s4: "SortResolvedAddresses pf ?s3 = Returns s4"
      and s': "s' = Unref (emit (Run (HostnameResult (Value (result s4)))) (s4\<lparr>on_resolve := False\<rparr>))"
      by blast
    have r4: "ports_ok p (result s4)" using Sort_ports [OF s4 r3] .
    have "follows (carries p) ?s3 s4" using follows_Sort [OF s4] .
    moreover have "follows (carries p) s4 s'"
      using r4 by (simp add: s' follows_def Unref_def emit_def)
    moreover have "ports_ok p (result s')" using r4 by (simp add: s' Unref_def emit_def)
    ultimately show ?thesis using f3 follows_trans by blast
  next
    assume s': "s' = Unref (emit (Run (HostnameResult (Error (error ?s3)))) (?s3\<lparr>on_resolve := False\<rparr>))"
    then have "follows (carries p) ?s3 s'"
      by (simp add: follows_def Unref_def emit_def)
    moreover have "ports_ok p (result s')" using r3 by (simp add: s' Unref_def emit_def)
    ultimately show ?thesis using f3 follows_trans by blast
  qed
qed

lemma Hostname_OnResolve_carries:
  assumes "Hostname_OnResolve pf a r s = Returns s'" and "ports_ok p (result s)"
    and "\<And>addrs. r = Value addrs \<Longrightarrow> ports_ok p addrs"
  shows "follows (carries p) s s' \<and> ports_ok p (result s')"
proof -
  let ?s2 = "accumulate r (s\<lparr>pending_queries := pending_queries s - 1\<rparr>)"
  have "follows (carries p) s (s\<lparr>pending_queries := pending_queries s - 1\<rparr>)"
    by (simp add: follows_def)
  then have f2: "follows (carries p) s ?s2"
    using follows_accumulate follows_trans by blast
  have r2: "ports_ok p (result ?s2)"
    using assms(2,3) by (cases r) (simp_all add: ports_ok_append)
  have "s' = ?s2 \<or> Hostname_complete pf a ?s2 = Returns s'"
    using assms(1) by (auto simp: Hostname_OnResolve_def Let_def split: if_splits)
  then show ?thesis
    using f2 r2 Hostname_complete_carries follows_trans by blast
qed

lemma OnHostbynameDoneLocked_carries:
  assumes "OnHostbynameDoneLocked pf a q st he s = Returns s'"
    and "ports_ok (network_port pf s) (result s)"
  shows "follows (carries (network_port pf s)) s s' \<and> ports_ok (network_port pf s) (result s')"
  using assms(1)
proof (rule OnHostbynameDoneLocked_cases)
  fix r
  assume r: "Hostname_OnResolve pf a r s = Returns s'"
    and v: "\<And>addrs. r = Value addrs \<Longrightarrow> st = ARES_SUCCESS \<and>
           hostent_addresses (htons (little_endian pf) (word_of_int (port s)))
             (h_addrtype he) (h_addr_list he) = Returns addrs"
  have "\<And>addrs. r = Value addrs \<Longrightarrow> ports_ok (network_port pf s) addrs"
    using v hostent_addresses_ports by (simp add: network_port_def) blast
  then show ?thesis using Hostname_OnResolve_carries [OF r assms(2)] by blast
qed

lemma network_port_follows: "follows P s t \<Longrightarrow> network_port pf t = network_port pf s"
  by (simp add: follows_def network_port_def)

lemma follows_SRV_OnResolve: "follows (carries p) s (SRV_OnResolve a r s)"
proof (cases "cancelled s")
  case True
  then show ?thesis by (simp add: SRV_OnResolve_cancelled follows_internal_carries)
next
  case False
  let ?s1 = "CancelTimers a (s\<lparr>shutting_down := True\<rparr>)"
  have "follows internal s (s\<lparr>shutting_down := True\<rparr>)" by (simp add: follows_def)
  then have "follows internal s ?s1" using follows_CancelTimers follows_trans by blast
  then have "follows (carries p) s ?s1" by (rule follows_internal_carries)
  moreover have "follows (carries p) ?s1 (Unref (emit (Run (SRVResult r)) (?s1\<lparr>on_resolve := False\<rparr>)))"
    by (simp add: follows_def Unref_def emit_def)
  ultimately show ?thesis using False follows_trans by (simp add: SRV_OnResolve_def Let_def)
qed

lemma follows_TXT_OnResolve: "follows (carries p) s (TXT_OnResolve a r s)"
proof (cases "cancelled s")
  case True
  then show ?thesis by (simp add: TXT_OnResolve_cancelled follows_internal_carries)
next
  case False
  let ?s1 = "CancelTimers a (s\<lparr>shutting_down := True\<rparr>)"
  have "follows internal s (s\<lparr>shutting_down := True\<rparr>)" by (simp add: follows_def)
  then have "follows internal s ?s1" using follows_CancelTimers follows_trans by blast
  then have "follows (carries p) s ?s1" by (rule follows_internal_carries)
  moreover have "follows (carries p) ?s1 (Unref (emit (Run (TXTResult r)) (?s1\<lparr>on_resolve := False\<rparr>)))"
    by (simp add: follows_def Unref_def emit_def)
  ultimately show ?thesis using False follows_trans by (simp add: TXT_OnResolve_def Let_def)
qed

lemma step_carries:
  assumes "step pf e s = Returns s'" and "ports_ok (network_port pf s) (result s)"
  shows "follows (carries (network_port pf s)) s s' \<and> ports_ok (network_port pf s) (result s')"
proof (cases e)
  case (EvCancel a)
  then show ?thesis
    using assms follows_internal_carries [OF follows_Cancel [of s a]] by auto
next
  case (EvHostbynameDone a q st he)
  then show ?thesis
    using assms OnHostbynameDoneLocked_carries [of pf a q st he s s'] by simp
next
  case (EvSRVQueryDone a st p)
  then show ?thesis
    using assms follows_SRV_OnResolve [of "network_port pf s" s a]
    by (auto simp: OnSRVQueryDoneLocked_def Let_def)
next
  case (EvTXTDone a st p)
  then obtain r where "s' = TXT_OnResolve a r s"
    using assms(1) by (auto elim: OnTXTDoneLocked_cases)
  then show ?thesis
    using assms(2) follows_TXT_OnResolve [of "network_port pf s" s a r] by simp
next
  case EvQueryTimeout
  then show ?thesis
    using assms follows_internal_carries [OF follows_OnQueryTimeout [of s]] by auto
next
  case (EvWork g)
  then show ?thesis
    using assms follows_internal_carries [OF follows_Work [of s g]] by auto
qed

lemma run_carries:
  "run pf evs s = Returns s' \<Longrightarrow> ports_ok (network_port pf s) (result s) \<Longrightarrow>
     follows (carries (network_port pf s)) s s' \<and> ports_ok (network_port pf s) (result s')"
proof (induction evs arbitrary: s)
  case Nil
  then show ?case by (simp add: follows_refl)
next
  case (Cons e evs)
  then obtain t where t: "step pf e s = Returns t" and r: "run pf evs t = Returns s'"
    by (auto split: outcome.splits)
  have st: "follows (carries (network_port pf s)) s t" "ports_ok (network_port pf s) (result t)"
    using step_carries [OF t Cons.prems(2)] by simp_all
  have np: "network_port pf t = network_port pf s" using st(1) by (rule network_port_follows)
  have "follows (carries (network_port pf s)) t s' \<and> ports_ok (network_port pf s) (result s')"
    using Cons.IH [OF r] st(2) np by simp
  then show ?case using st(1) follows_trans by blast
qed

lemma ResolveAsIPLiteralLocked_literal:
  "ResolveAsIPLiteralLocked pf s =
     (case literal_address pf s of
        Some a \<Rightarrow> (True, emit (Run (HostnameResult (Value [a]))) (s\<lparr>on_resolve := False\<rparr>))
      | None \<Rightarrow> (False, s))"
  by (simp add: ResolveAsIPLiteralLocked_def literal_address_def Let_def split: option.splits)

lemma literal_address_cong:
  "host t = host s \<Longrightarrow> port t = port s \<Longrightarrow> literal_address pf t = literal_address pf s"
  by (simp add: literal_address_def cong: option.case_cong)

lemma is_ip_literal_address: "is_ip_literal pf s = (literal_address pf s \<noteq> None)"
  by (auto simp: is_ip_literal_def literal_address_def split: option.splits)

lemma call_ares_gethostbyname_carries:
  assumes "call_ares_gethostbyname pf a q fam inl s = Returns t"
    and "ports_ok (network_port pf s) (result s)"
  shows "follows (carries (network_port pf s)) s t \<and> ports_ok (network_port pf s) (result t)"
proof -
  let ?s1 = "emit (ares_gethostbyname (host s) fam (pending_queries s)) s"
  have f1: "follows (carries (network_port pf s)) s ?s1" by (simp add: follows_emit)
  have n1: "network_port pf ?s1 = network_port pf s" "result ?s1 = result s"
    by (simp_all add: network_port_def emit_def)
  show ?thesis
  proof (cases inl)
    case None
    then show ?thesis using assms f1 n1 by (simp add: call_ares_gethostbyname_def)
  next
    case (Some c)
    then have "OnHostbynameDoneLocked pf a q (fst c) (snd c) ?s1 = Returns t"
      using assms(1) by (simp add: call_ares_gethostbyname_def)
    from OnHostbynameDoneLocked_carries [OF this] assms(2) n1
    show ?thesis using f1 follows_trans by auto
  qed
qed

lemma Hostname_Start_carries:
  assumes r: "Hostname_Start pf sc s = Returns s1"
    and ok: "ports_ok (network_port pf s) (result s)"
  shows "follows (carries (network_port pf s)) s s1 \<and> ports_ok (network_port pf s) (result s1)"
proof -
  let ?p = "network_port pf s"
  have i: "initialized s" using r by (auto simp: Hostname_Start_def Let_def Ref_def split: if_splits)
  show ?thesis
  proof (cases "literal_address pf s")
    case (Some a)
    let ?s0 = "(Ref s)\<lparr>on_resolve := True\<rparr>"
    have la: "literal_address pf ?s0 = Some a"
      using Some literal_address_cong [of ?s0 s pf] by (simp add: Ref_def)
    have "s1 = Unref (Unref (emit (Run (HostnameResult (Value [a]))) (?s0\<lparr>on_resolve := False\<rparr>)))"
      using r i la by (simp add: Hostname_Start_def Let_def ResolveAsIPLiteralLocked_literal Ref_def)
    then show ?thesis
      using literal_address_port [OF Some] ok
      by (simp add: follows_def Unref_def emit_def Ref_def ports_ok_def)
  next
    case None
    then have nl: "\<not> is_ip_literal pf s" by (simp add: is_ip_literal_address)
    let ?a = "cancel_answers sc"
    let ?s2 = "if IsIpv6LoopbackAvailable pf
       then (Ref s)\<lparr>on_resolve := True, pending_queries := pending_queries s + 1 + 1\<rparr>
       else (Ref s)\<lparr>on_resolve := True, pending_queries := pending_queries s + 1\<rparr>"
    have f2: "follows (carries ?p) s ?s2" by (simp add: follows_def Ref_def)
    have n2: "network_port pf ?s2 = ?p" "result ?s2 = result s"
      by (simp_all add: network_port_def Ref_def)
    obtain s3 s4 where c1: "(if IsIpv6LoopbackAvailable pf
            then call_ares_gethostbyname pf ?a ''AAAA'' AF_INET6 (inline_AAAA sc) ?s2
            else Returns ?s2) = Returns s3"
      and c2: "call_ares_gethostbyname pf ?a ''A'' AF_INET (inline_A sc) s3 = Returns s4"
      and s1: "s1 = Start_tail sc s4"
      using r Hostname_Start_nonliteral [OF i nl, of sc]
      by (auto split: outcome.splits if_splits)
    have f3: "follows (carries ?p) ?s2 s3 \<and> ports_ok ?p (result s3)"
    proof (cases "IsIpv6LoopbackAvailable pf")
      case True
      then show ?thesis
        using c1 call_ares_gethostbyname_carries [of pf ?a "''AAAA''" AF_INET6 "inline_AAAA sc" ?s2 s3]
          n2 ok by simp
    next
      case False
      then show ?thesis using c1 ok by (auto simp: follows_refl Ref_def)
    qed
    have n3: "network_port pf s3 = ?p"
      using f3 n2(1) network_port_follows by metis
    have f4: "follows (carries ?p) s3 s4 \<and> ports_ok ?p (result s4)"
      using call_ares_gethostbyname_carries [OF c2] f3 n3 by simp
    have f5: "follows (carries ?p) s4 s1"
      using follows_internal_carries [OF follows_Start_tail] s1 by simp
    have "follows (carries ?p) s s1"
      using f2 f3 f4 f5 follows_trans by blast
    then show ?thesis using f4 s1 by simp
  qed
qed

lemma Hostname_Start_no_inline:
  assumes "initialized s" and "\<not> is_ip_literal pf s"
    and "inline_AAAA sc = None" and "inline_A sc = None"
  shows "Hostname_Start pf sc s =
      Returns (Start_tail sc
        (if IsIpv6LoopbackAvailable pf
         then emit (ares_gethostbyname (host s) AF_INET (pending_queries s + 2))
                (emit (ares_gethostbyname (host s) AF_INET6 (pending_queries s + 2))
                   ((Ref s)\<lparr>on_resolve := True, pending_queries := pending_queries s + 2\<rparr>))
         else emit (ares_gethostbyname (host s) AF_INET (pending_queries s + 1))
                ((Ref s)\<lparr>on_resolve := True, pending_queries := pending_queries s + 1\<rparr>)))"
  using assms(3,4) Hostname_Start_nonliteral [OF assms(1,2), of sc]
  by (simp add: call_ares_gethostbyname_def emit_def Ref_def add.commute)

lemma Work_ex_empty:
  "fd_node_list s = [] \<Longrightarrow> \<not> shutting_down s \<Longrightarrow>
     Work getsock_ex s =
       s\<lparr>fd_node_list := [node_ex 7 True], refs := refs s + 1,
         trace := trace s @ [NewGrpcPolledFdLocked 7, RegisterForOnReadableLocked 7]\<rparr>"
  by (simp add: Work_def Work_first_def getsock_ex_def ARES_GETSOCK_MAXNUM_def
      Work_slot_def ARES_GETSOCK_READABLE_def ARES_GETSOCK_WRITABLE_def
      upt_rec [of _ "numeral _"] upt_rec [of _ "Suc _"] Let_def emit_def Ref_def
      PushFdNode_def node_ex_def new_FdNode_def shutdown_node_def ShutdownLocked_def)

lemma Hostname_Start_ex: "Hostname_Start platform_ex script_ex fresh_ex = Returns started_ex"
proof -
  have i: "initialized fresh_ex" by (simp add: fresh_ex_def)
  have n: "inline_AAAA script_ex = None" "inline_A script_ex = None"
    by (simp_all add: script_ex_def)
  have v6: "IsIpv6LoopbackAvailable platform_ex" by (simp add: platform_ex_def)
  let ?s4 = "emit (ares_gethostbyname (host fresh_ex) AF_INET (pending_queries fresh_ex + 2))
                (emit (ares_gethostbyname (host fresh_ex) AF_INET6 (pending_queries fresh_ex + 2))
                   ((Ref fresh_ex)\<lparr>on_resolve := True,
                      pending_queries := pending_queries fresh_ex + 2\<rparr>))"
  have e: "Hostname_Start platform_ex script_ex fresh_ex = Returns (Start_tail script_ex ?s4)"
    using Hostname_Start_no_inline [OF i fresh_ex_not_literal n] v6 by simp
  have w: "fd_node_list ?s4 = []" "\<not> shutting_down ?s4"
    by (simp_all add: emit_def Ref_def fresh_ex_def new_request_def)
  have "Start_tail script_ex ?s4 = started_ex"
    unfolding Start_tail_def
    by (simp add: script_ex_def Work_ex_empty [OF w] StartTimers_def)
       (simp add: emit_def Ref_def Unref_def fresh_ex_def new_request_def started_ex_def)
  then show ?thesis using e by simp
qed

lemma hostent_A_addresses:
  "hostent_addresses p (h_addrtype hostent_A) (h_addr_list hostent_A) =
     Returns [sockaddr_in 2 p [CHR 0x0A, CHR 0x00, CHR 0x00, CHR 0x01],
              sockaddr_in 2 p [CHR 0x0A, CHR 0x00, CHR 0x00, CHR 0x02]]"
  by (simp add: hostent_A_def AF_INET_def AF_INET6_def read_bytes_def)

lemma hostent_AAAA_addresses:
  "hostent_addresses p (h_addrtype hostent_AAAA) (h_addr_list hostent_AAAA) =
     Returns [sockaddr_in6 10 p (replicate 15 (CHR 0x00) @ [CHR 0x01])]"
  by (simp add: hostent_AAAA_def AF_INET_def AF_INET6_def read_bytes_def)

lemma run_success_ex:
  "is_Returns (run platform_ex success_completions_ex started_ex)
   \<and> delivered (trace (returned (run platform_ex success_completions_ex started_ex))) =
       [[sockaddr_in 2 0x901F [CHR 0x0A, CHR 0x00, CHR 0x00, CHR 0x02],
         sockaddr_in 2 0x901F [CHR 0x0A, CHR 0x00, CHR 0x00, CHR 0x01],
         sockaddr_in6 10 0x901F (replicate 15 (CHR 0x00) @ [CHR 0x01])]]"
  by (simp add: success_completions_ex_def OnHostbynameDoneLocked_def ARES_SUCCESS_def
      hostent_A_addresses hostent_AAAA_addresses Hostname_OnResolve_def Hostname_complete_def
      started_ex_def fresh_ex_def new_request_def CancelTimers_def emit_def Unref_def
      SortResolvedAddresses_def platform_ex_def htons_def Let_def
      upt_rec [of _ "numeral _"] upt_rec [of _ "Suc _"])

text \<open>
  Claim C6. A hostname request started fresh: whatever the stub then completes, every
  address sequence handed to the user callback carries \<^verbatim>\<open>htons(port_)\<close> in the port field
  of each address. On the stub path the addresses are built with that port by
  \<^verbatim>\<open>OnHostbynameDoneLocked\<close> and the sort only reorders them. On the IP-literal path the
  one address is what the literal parsers read from the joined host and port: the
  port text is \<^verbatim>\<open>port_\<close> in decimal, and a parser that accepts it reads \<^verbatim>\<open>port_\<close> back.
\<close>

theorem delivered_addresses_carry_port:
  assumes "result s = []"
    and "Hostname_Start pf sc s = Returns s1"
    and "run pf evs s1 = Returns s2"
  shows "list_all (ports_ok (network_port pf s)) (delivered (effects_since s s2))
       \<and> (\<forall>ty l addrs. hostent_addresses (network_port pf s) ty l = Returns addrs
             \<longrightarrow> ports_ok (network_port pf s) addrs)
       \<and> (\<forall>a. literal_address pf s = Some a \<longrightarrow>
             delivered (effects_since s s1) = [[a]] \<and> ports_ok (network_port pf s) [a])"
proof -
  let ?p = "network_port pf s"
  have ok0: "ports_ok ?p (result s)" using assms(1) by (simp add: ports_ok_def)
  have f1: "follows (carries ?p) s s1" and ok1: "ports_ok ?p (result s1)"
    using Hostname_Start_carries [OF assms(2) ok0] by simp_all
  have n1: "network_port pf s1 = ?p" using f1 by (rule network_port_follows)
  have "follows (carries ?p) s1 s2" using run_carries [OF assms(3)] ok1 n1 by simp
  then have "follows (carries ?p) s s2" using f1 follows_trans by blast
  then obtain es where "trace s2 = trace s @ es" and "list_all (carries ?p) es"
    by (auto simp: follows_def)
  then have 1: "list_all (ports_ok ?p) (delivered (effects_since s s2))"
    using carries_delivered by (simp add: effects_since_def)
  have 3: "\<forall>a. literal_address pf s = Some a \<longrightarrow>
             delivered (effects_since s s1) = [[a]] \<and> ports_ok ?p [a]"
  proof (intro allI impI)
    fix a assume a: "literal_address pf s = Some a"
    let ?s0 = "(Ref s)\<lparr>on_resolve := True\<rparr>"
    have i: "initialized s"
      using assms(2) by (auto simp: Hostname_Start_def Let_def Ref_def split: if_splits)
    have la: "literal_address pf ?s0 = Some a"
      using a literal_address_cong [of ?s0 s pf] by (simp add: Ref_def)
    have "s1 = Unref (Unref (emit (Run (HostnameResult (Value [a]))) (?s0\<lparr>on_resolve := False\<rparr>)))"
      using assms(2) i la
      by (simp add: Hostname_Start_def Let_def ResolveAsIPLiteralLocked_literal Ref_def)
    then show "delivered (effects_since s s1) = [[a]] \<and> ports_ok ?p [a]"
      using literal_address_port [OF a]
      by (simp add: effects_since_def Unref_def emit_def Ref_def ports_ok_def)
  qed
  show ?thesis using 1 3 hostent_addresses_ports by blast
qed

lemma literal_ex_address: "literal_address platform_ex literal_ex = Some literal_address_ex"
  by (simp add: literal_address_def grpc_parse_ipv4_hostport_Join literal_ex_def
      new_request_def platform_ex_def literal4_ex_def literal_address_ex_def htons_def)

lemma literal_ex_Start: "Hostname_Start platform_ex script_ex literal_ex = Returns literal_started_ex"
proof -
  let ?s0 = "(Ref literal_ex)\<lparr>on_resolve := True\<rparr>"
  have "literal_address platform_ex ?s0 = literal_address platform_ex literal_ex"
    by (rule literal_address_cong) (simp_all add: Ref_def)
  then have "ResolveAsIPLiteralLocked platform_ex ?s0 =
      (True, emit (Run (HostnameResult (Value [literal_address_ex]))) (?s0\<lparr>on_resolve := False\<rparr>))"
    by (simp add: ResolveAsIPLiteralLocked_literal literal_ex_address)
  moreover have "initialized (Ref literal_ex)" by (simp add: Ref_def literal_ex_def)
  ultimately show ?thesis
    by (simp add: Hostname_Start_def Let_def)
       (simp add: literal_started_ex_def literal_ex_def new_request_def Ref_def Unref_def
          emit_def)
qed

theorem delivered_addresses_carry_port_witness:
  "network_port platform_ex fresh_ex = 0x901F
   \<and> delivered (effects_since fresh_ex
        (returned (run platform_ex success_completions_ex started_ex))) \<noteq> []
   \<and> list_all (ports_ok 0x901F)
       (delivered (effects_since fresh_ex
          (returned (run platform_ex success_completions_ex started_ex))))
   \<and> network_port platform_ex literal_ex = 0x5000
   \<and> delivered (effects_since literal_ex literal_started_ex) = [[literal_address_ex]]
   \<and> list_all (ports_ok 0x5000) (delivered (effects_since literal_ex literal_started_ex))"
proof -
  let ?s2 = "returned (run platform_ex success_completions_ex started_ex)"
  have np: "network_port platform_ex fresh_ex = 0x901F"
    "network_port platform_ex literal_ex = 0x5000"
    by (simp_all add: network_port_def platform_ex_def fresh_ex_def literal_ex_def htons_def)
  have r0: "result fresh_ex = []" "result literal_ex = []"
    by (simp_all add: fresh_ex_def literal_ex_def new_request_def)
  have run2: "run platform_ex success_completions_ex started_ex = Returns ?s2"
    using run_success_ex by simp
  have run1: "run platform_ex [] literal_started_ex = Returns literal_started_ex" by simp
  have d: "delivered (effects_since fresh_ex ?s2) \<noteq> []"
    using run_success_ex by (simp add: effects_since_def fresh_ex_def new_request_def)
  have d1: "delivered (effects_since literal_ex literal_started_ex) = [[literal_address_ex]]"
    by (simp add: effects_since_def literal_started_ex_def literal_ex_def new_request_def)
  show ?thesis
    using delivered_addresses_carry_port [OF r0(1) Hostname_Start_ex run2, THEN conjunct1]
      delivered_addresses_carry_port [OF r0(2) literal_ex_Start run1, THEN conjunct1] np d d1
    by simp
qed

section \<open>Completion of a hostname request, and the two assertions\<close>

lemma CancelTimers_error [simp]: "error (CancelTimers a s) = error s"
  by (simp add: CancelTimers_def Let_def emit_def Unref_def split: option.splits)

lemma Hostname_OnResolve_empty_success:
  assumes "pending_queries s = 1" and "\<not> cancelled s" and "result s = []" and "ok (error s)"
  shows "Hostname_OnResolve pf a (Value []) s = Aborted (AssertFailed ''!error_.ok()'')"
  using assms by (simp add: Hostname_OnResolve_def Hostname_complete_def Let_def)

lemma grpc_error_add_child_not_ok:
  "\<not> ok child \<Longrightarrow> \<not> ok (grpc_error_add_child src child)"
  by (simp add: grpc_error_add_child_def ok_def)

lemma hostent_empty_addresses:
  "hostent_addresses p (h_addrtype hostent_empty) (h_addr_list hostent_empty) = Returns []"
  by (simp add: hostent_empty_def)

text \<open>
  Claim C1, where the code departs from it. Both lookups of a started request report
  success with no address: the address list is empty and so is the accumulated error,
  and \<^verbatim>\<open>OnResolve\<close> stops at \<^verbatim>\<open>GPR_ASSERT(!error_.ok())\<close> instead of posting the user
  callback. (\<open>Hostname_OnResolve_last_query\<close> below is the claim where the code meets
  it.)
\<close>

theorem empty_success_stops_at_assertion:
  "Hostname_Start platform_ex script_ex fresh_ex = Returns started_ex
   \<and> run platform_ex empty_completions_ex started_ex = Aborted (AssertFailed ''!error_.ok()'')"
proof -
  let ?s = "started_ex\<lparr>pending_queries := 1\<rparr>"
  have 1: "OnHostbynameDoneLocked platform_ex (True, True) ''AAAA'' ARES_SUCCESS hostent_empty
      started_ex = Returns ?s"
    by (simp add: OnHostbynameDoneLocked_def hostent_empty_addresses Hostname_OnResolve_def
        started_ex_def)
  have "Hostname_OnResolve platform_ex (True, True) (Value []) ?s
      = Aborted (AssertFailed ''!error_.ok()'')"
    by (rule Hostname_OnResolve_empty_success)
       (simp_all add: started_ex_def fresh_ex_def new_request_def ok_def OkStatus_def)
  then have 2: "OnHostbynameDoneLocked platform_ex (True, True) ''A'' ARES_SUCCESS hostent_empty ?s
      = Aborted (AssertFailed ''!error_.ok()'')"
    by (simp add: OnHostbynameDoneLocked_def hostent_empty_addresses)
  show ?thesis using 1 2 Hostname_Start_ex by (simp add: empty_completions_ex_def)
qed

lemma Initialize_bad_port:
  assumes "fst (SplitHostPort pf (name s)) \<noteq> []" and "snd (SplitHostPort pf (name s)) \<noteq> []"
    and "SimpleAtoi pf (snd (SplitHostPort pf (name s))) = None"
  shows "Initialize pf stub dns_server check_port s
           = Aborted (AssertFailed ''absl::SimpleAtoi(port, &port_)'')"
  using assms by (simp add: Initialize_def Let_def)

text \<open>
  Claim C7, where the code departs from it. The name \<^verbatim>\<open>example.test:http\<close> has a port
  part that is no decimal numeral: \<^verbatim>\<open>Initialize\<close> does not answer a failure status, it
  stops at \<^verbatim>\<open>GPR_ASSERT(absl::SimpleAtoi(port, &port_))\<close>, and so does \<^verbatim>\<open>Create\<close>.
\<close>

theorem non_numeric_port_stops_at_assertion:
  "SplitHostPort platform_ex bad_port_name_ex = (''example.test'', ''http'')
   \<and> SimpleAtoi platform_ex ''http'' = None
   \<and> Initialize platform_ex (ARES_SUCCESS, ARES_SUCCESS) [] True
        (new_request bad_port_name_ex [] 0)
       = Aborted (AssertFailed ''absl::SimpleAtoi(port, &port_)'')
   \<and> GrpcAresHostnameRequest_Create platform_ex (ARES_SUCCESS, ARES_SUCCESS)
        bad_port_name_ex [] [] True 0
       = Aborted (AssertFailed ''absl::SimpleAtoi(port, &port_)'')"
proof -
  have sp: "SplitHostPort platform_ex bad_port_name_ex = (''example.test'', ''http'')"
    by (simp add: platform_ex_def split_ex_def bad_port_name_ex_def)
  have at: "SimpleAtoi platform_ex ''http'' = None"
    by (simp add: platform_ex_def atoi_ex_def digit_val_def)
  have "Initialize platform_ex (ARES_SUCCESS, ARES_SUCCESS) [] True
        (new_request bad_port_name_ex [] 0)
       = Aborted (AssertFailed ''absl::SimpleAtoi(port, &port_)'')"
    by (rule Initialize_bad_port) (simp_all add: new_request_def sp at)
  then show ?thesis
    using sp at by (simp add: GrpcAresHostnameRequest_Create_def Create_def)
qed

text \<open>
  A port numeral beyond 16 bits is no failure either: \<^verbatim>\<open>SimpleAtoi\<close> reads it and
  \<^verbatim>\<open>Initialize\<close> succeeds.
\<close>

lemma out_of_range_port_accepted:
  "Initialize platform_ex (ARES_SUCCESS, ARES_SUCCESS) [] True
        (new_request ''example.test:70000'' [] 0)
     = Returns (OkStatus, (new_request ''example.test:70000'' [] 0)
         \<lparr>host := ''example.test'', port := 70000, initialized := True\<rparr>)"
  by (simp add: Initialize_def Let_def new_request_def platform_ex_def split_ex_def atoi_ex_def
      digit_val_def SetRequestDNSServer_def ok_def OkStatus_def ARES_SUCCESS_def)

lemma accumulate_pending:
  "accumulate r (s\<lparr>pending_queries := n\<rparr>) = (accumulate r s)\<lparr>pending_queries := n\<rparr>"
  by (cases r) simp_all

lemma Hostname_OnResolve_last_query:
  assumes "pending_queries s = 1" and "\<not> cancelled s"
    and "Hostname_OnResolve pf a r s = Returns s'"
  shows "(result (accumulate r s) \<noteq> [] \<longrightarrow>
            (\<exists>addrs. posted (effects_since s s') = [HostnameResult (Value addrs)]
               \<and> set addrs \<subseteq> set (result (accumulate r s))
               \<and> length addrs = length (result (accumulate r s))))
       \<and> (result (accumulate r s) = [] \<longrightarrow>
            posted (effects_since s s') = [HostnameResult (Error (error (accumulate r s)))]
            \<and> \<not> ok (error (accumulate r s)))"
proof -
  let ?s2 = "(accumulate r s)\<lparr>pending_queries := 0\<rparr>"
  let ?s3 = "CancelTimers a (?s2\<lparr>shutting_down := True\<rparr>)"
  have c: "Hostname_complete pf a ?s2 = Returns s'"
    using assms(1,3) by (simp add: Hostname_OnResolve_def Let_def accumulate_pending)
  have nc: "\<not> cancelled ?s2" using assms(2) by simp
  have "follows internal (?s2\<lparr>shutting_down := True\<rparr>) ?s3" by (rule follows_CancelTimers)
  then obtain es where t3: "trace ?s3 = trace s @ es" and i3: "list_all internal es"
    by (auto simp: follows_def)
  have p3: "posted es = []" using i3 by (rule posted_internal)
  have r3: "result ?s3 = result (accumulate r s)" "error ?s3 = error (accumulate r s)"
    by simp_all
  show ?thesis
  proof (cases "result (accumulate r s) = []")
    case True
    then have "\<not> ok (error (accumulate r s))
        \<and> s' = Unref (emit (Run (HostnameResult (Error (error ?s3)))) (?s3\<lparr>on_resolve := False\<rparr>))"
      using c nc r3 by (auto simp: Hostname_complete_def Let_def split: if_splits)
    then show ?thesis
      using True t3 p3 r3(2)
      by (simp add: effects_since_def Unref_def emit_def posted_append)
  next
    case False
    then obtain s4 where s4: "SortResolvedAddresses pf ?s3 = Returns s4"
      and s': "s' = Unref (emit (Run (HostnameResult (Value (result s4)))) (s4\<lparr>on_resolve := False\<rparr>))"
      using c nc r3 by (auto simp: Hostname_complete_def Let_def split: if_splits outcome.splits)
    let ?srt = "address_sorting_rfc_6724_sort pf (zip (result ?s3) [0..<length (result ?s3)])"
    have b: "list_all (\<lambda>x. snd x < length (result ?s3)) ?srt"
      and l: "length ?srt = length (result ?s3)"
      and r4: "result s4 = map (\<lambda>x. result ?s3 ! snd x) ?srt"
      and t4: "trace s4 = trace ?s3"
      using s4 by (auto simp: SortResolvedAddresses_def Let_def split: if_splits)
    have "set (result s4) \<subseteq> set (result ?s3)"
      using b by (auto simp: r4 list_all_iff)
    moreover have "length (result s4) = length (result ?s3)" using l by (simp add: r4)
    moreover have "posted (effects_since s s') = [HostnameResult (Value (result s4))]"
      using t3 t4 p3 by (simp add: s' effects_since_def Unref_def emit_def posted_append)
    ultimately show ?thesis using False r3(1) by simp
  qed
qed

section \<open>The errors of Initialize\<close>

lemma created_not_ok: "error_create_code pf \<noteq> kOk \<Longrightarrow> \<not> ok (GRPC_ERROR_CREATE pf msg)"
  by (simp add: ok_def)

lemma created_not_ok_str:
  "error_create_code pf \<noteq> kOk \<Longrightarrow> \<not> ok (grpc_error_set_str (GRPC_ERROR_CREATE pf msg) v)"
  by (simp add: ok_def)

text \<open>
  The three errors of \<^verbatim>\<open>Initialize\<close> that \<^verbatim>\<open>Create\<close> hands on: an empty host, a missing
  port with no default when \<^verbatim>\<open>check_port\<close> is set, and a \<^verbatim>\<open>dns_server\<close> that neither
  literal parser accepts (reached when the port parses and the channel was created).
  Each is the error \<^verbatim>\<open>GRPC_ERROR_CREATE\<close> builds from the message of its branch, with the
  target address attached in the first two. Its status code is therefore the code of
  every error the macro builds, among them the error that a failed stub query hands to
  the user callback.
\<close>

lemma Create_errors:
  assumes c: "error_create_code pf \<noteq> kOk"
  shows "fst (SplitHostPort pf nm) = [] \<Longrightarrow>
      Create pf stub nm dport dns_server check_port tmo
        = Returns (Error (grpc_error_set_str (GRPC_ERROR_CREATE pf ''unparseable host:port'') nm))"
    and "fst (SplitHostPort pf nm) \<noteq> [] \<Longrightarrow> check_port \<Longrightarrow> snd (SplitHostPort pf nm) = []
        \<Longrightarrow> dport = [] \<Longrightarrow>
      Create pf stub nm dport dns_server check_port tmo
        = Returns (Error (grpc_error_set_str (GRPC_ERROR_CREATE pf ''no port in name'') nm))"
    and "fst (SplitHostPort pf nm) \<noteq> []
        \<Longrightarrow> \<not> (check_port \<and> snd (SplitHostPort pf nm) = [] \<and> dport = [])
        \<Longrightarrow> port_text pf nm dport check_port = []
             \<or> SimpleAtoi pf (port_text pf nm dport check_port) \<noteq> None
        \<Longrightarrow> fst stub = ARES_SUCCESS \<Longrightarrow> dns_server \<noteq> []
        \<Longrightarrow> grpc_parse_ipv4_hostport pf dns_server = None
        \<Longrightarrow> grpc_parse_ipv6_hostport pf dns_server = None \<Longrightarrow>
      Create pf stub nm dport dns_server check_port tmo
        = Returns (Error (GRPC_ERROR_CREATE pf (''cannot parse authority '' @ dns_server)))"
  using c
  by (auto simp: Create_def Initialize_def Let_def new_request_def SetRequestDNSServer_def
      created_not_ok created_not_ok_str port_text_def)

lemma stub_failure_error:
  assumes "st \<noteq> ARES_SUCCESS" and "\<not> cancelled s"
  shows "posted (effects_since s (OnSRVQueryDoneLocked pf a st p s))
           = [SRVResult (Error (GRPC_ERROR_CREATE pf
                (''c-ares status is not ARES_SUCCESS qtype=SRV name='' @ service_name s
                   @ '': '' @ ares_strerror pf st)))]"
  using assms by (simp add: OnSRVQueryDoneLocked_def SRV_OnResolve_posted)

section \<open>The TXT result delivered\<close>

lemma TXT_Start_ex: "TXT_Start platform_ex script_ex txt_fresh_ex = Returns txt_started_ex"
proof -
  let ?s2 = "emit (ares_search ''_grpc_config.cfg.test'')
     ((Ref txt_fresh_ex)\<lparr>on_resolve := True, config_name := ''_grpc_config.cfg.test''\<rparr>)"
  have w: "fd_node_list ?s2 = []" "\<not> shutting_down ?s2"
    by (simp_all add: emit_def Ref_def txt_fresh_ex_def new_request_def)
  have "TXT_Start platform_ex script_ex txt_fresh_ex = Returns (Start_tail script_ex ?s2)"
    by (simp add: TXT_Start_def Let_def Start_tail_def script_ex_def gpr_stricmp_def
        ascii_tolower_def txt_fresh_ex_def new_request_def Ref_def emit_def)
  moreover have "Start_tail script_ex ?s2 = txt_started_ex"
    unfolding Start_tail_def
    by (simp add: script_ex_def Work_ex_empty [OF w] StartTimers_def)
       (simp add: emit_def Ref_def Unref_def txt_fresh_ex_def new_request_def txt_started_ex_def)
  ultimately show ?thesis by simp
qed

text \<open>
  Claim C5. When the stub reports success and the reply parses, \<^verbatim>\<open>OnTXTDoneLocked\<close>
  hands \<^verbatim>\<open>OnResolve\<close> a value, not an error: the text after \<^verbatim>\<open>grpc_config=\<close> of the
  first chunk that starts a record and begins with that prefix, followed by the text of
  the chunks after it up to the next record start; the empty string when no chunk
  matches. Unless the request is cancelled, \<^verbatim>\<open>OnResolve\<close> posts the user callback with
  exactly this value. The chunks are laid out as the stub lays them out (text, then a
  NUL).
\<close>

theorem txt_result_is_spec_payload:
  assumes "\<forall>c\<in>set reply. nul_terminated c"
  shows "OnTXTDoneLocked pf a ARES_SUCCESS (ARES_SUCCESS, reply) s
           = Returns (TXT_OnResolve a (Value (spec_txt_payload reply)) s)
       \<and> (\<not> cancelled s \<longrightarrow>
            posted (effects_since s (TXT_OnResolve a (Value (spec_txt_payload reply)) s))
              = [TXTResult (Value (spec_txt_payload reply))])
       \<and> ((\<forall>c\<in>set reply. \<not> is_config_start c) \<longrightarrow>
            OnTXTDoneLocked pf a ARES_SUCCESS (ARES_SUCCESS, reply) s
              = Returns (TXT_OnResolve a (Value []) s))"
  using service_config_json_out_eq [OF assms] spec_txt_payload_no_match [of reply]
    TXT_OnResolve_posted [of s a "Value (spec_txt_payload reply)"]
  by (simp add: OnTXTDoneLocked_def)

lemma txt_started_ex_live: "\<not> cancelled txt_started_ex"
  by (simp add: txt_started_ex_def txt_fresh_ex_def new_request_def)

theorem txt_result_is_spec_payload_witness:
  "list_all nul_terminated reply_ex
   \<and> is_Returns (OnTXTDoneLocked platform_ex (True, True) ARES_SUCCESS (ARES_SUCCESS, reply_ex)
        txt_started_ex)
   \<and> posted (effects_since txt_started_ex
        (returned (OnTXTDoneLocked platform_ex (True, True) ARES_SUCCESS (ARES_SUCCESS, reply_ex)
           txt_started_ex)))
       = [TXTResult (Value ''[{}]'')]
   \<and> posted (effects_since txt_started_ex
        (returned (OnTXTDoneLocked platform_ex (True, True) ARES_SUCCESS (ARES_SUCCESS, [])
           txt_started_ex)))
       = [TXTResult (Value [])]"
  using txt_result_is_spec_payload
      [OF reply_ex_nul, of platform_ex "(True, True)" txt_started_ex]
    txt_result_is_spec_payload [of "[]" platform_ex "(True, True)" txt_started_ex]
    reply_ex_nul reply_ex_payload txt_started_ex_live
  by (simp add: list_all_iff)

section \<open>Cancel and the fast path of Start\<close>

lemma literal_ex_Cancel:
  "Cancel (True, True) literal_ex = (True, literal_ex\<lparr>shutting_down := True, cancelled := True\<rparr>)"
  by (simp add: Cancel_def CancelTimers_def ShutdownPollerHandlesLocked_def literal_ex_def
      new_request_def)

lemma literal_started_ex_Cancel:
  "Cancel (True, True) literal_started_ex
     = (True, literal_started_ex\<lparr>shutting_down := True, cancelled := True\<rparr>)"
  by (simp add: Cancel_def CancelTimers_def ShutdownPollerHandlesLocked_def literal_ex_def
      literal_started_ex_def new_request_def)

lemma cancelled_literal_ex_Start:
  "Hostname_Start platform_ex script_ex (literal_ex\<lparr>shutting_down := True, cancelled := True\<rparr>)
     = Returns (literal_started_ex\<lparr>shutting_down := True, cancelled := True\<rparr>)"
proof -
  let ?c = "literal_ex\<lparr>shutting_down := True, cancelled := True\<rparr>"
  let ?s0 = "(Ref ?c)\<lparr>on_resolve := True\<rparr>"
  have "literal_address platform_ex ?s0 = literal_address platform_ex literal_ex"
    by (rule literal_address_cong) (simp_all add: Ref_def)
  then have "ResolveAsIPLiteralLocked platform_ex ?s0 =
      (True, emit (Run (HostnameResult (Value [literal_address_ex]))) (?s0\<lparr>on_resolve := False\<rparr>))"
    by (simp add: ResolveAsIPLiteralLocked_literal literal_ex_address)
  moreover have "initialized (Ref ?c)" by (simp add: Ref_def literal_ex_def)
  ultimately show ?thesis
    by (simp add: Hostname_Start_def Let_def)
       (simp add: literal_started_ex_def literal_ex_def new_request_def Ref_def Unref_def
          emit_def)
qed

text \<open>
  Claim C2, where the code departs from it. The request is for the IP literal
  \<^verbatim>\<open>1.2.3.4:80\<close>. \<^verbatim>\<open>Cancel\<close> on the fresh request answers true and sets both flags; the
  \<^verbatim>\<open>Start\<close> that follows does not look at them and gives the event engine the closure
  that calls the user callback with the address. In the other order, \<^verbatim>\<open>Start\<close> posts
  the closure and leaves \<^verbatim>\<open>shutting_down_\<close> false, so a \<^verbatim>\<open>Cancel\<close> that comes before the
  engine runs the closure answers true and withdraws nothing. The completion paths
  (\<open>Cancel_first_transition_then_silent\<close>) set \<^verbatim>\<open>shutting_down_\<close> before they post and
  post nothing once \<^verbatim>\<open>cancelled_\<close> is set.
\<close>

theorem Cancel_true_then_fast_path_posts:
  "Cancel (True, True) literal_ex
     = (True, literal_ex\<lparr>shutting_down := True, cancelled := True\<rparr>)
   \<and> Hostname_Start platform_ex script_ex (literal_ex\<lparr>shutting_down := True, cancelled := True\<rparr>)
       = Returns (literal_started_ex\<lparr>shutting_down := True, cancelled := True\<rparr>)
   \<and> posted (effects_since (literal_ex\<lparr>shutting_down := True, cancelled := True\<rparr>)
        (literal_started_ex\<lparr>shutting_down := True, cancelled := True\<rparr>))
       = [HostnameResult (Value [literal_address_ex])]
   \<and> Hostname_Start platform_ex script_ex literal_ex = Returns literal_started_ex
   \<and> posted (trace literal_started_ex) = [HostnameResult (Value [literal_address_ex])]
   \<and> Cancel (True, True) literal_started_ex
       = (True, literal_started_ex\<lparr>shutting_down := True, cancelled := True\<rparr>)"
  using literal_ex_Cancel cancelled_literal_ex_Start literal_ex_Start literal_started_ex_Cancel
  by (simp add: effects_since_def literal_started_ex_def literal_ex_def new_request_def)

end
